theory Spec2Isabelle
  imports Main "HOL-Library.FSet" "HOL-Library.Multiset"
begin

section \<open>Familiada: the game-session state machine\<close>

text \<open>
  A shallow embedding of the TypeScript classes \<^verbatim>\<open>Answer\<close>, \<^verbatim>\<open>Question\<close>,
  \<^verbatim>\<open>Team\<close>, \<^verbatim>\<open>QuestionStore\<close>, \<^verbatim>\<open>Round\<close> and \<^verbatim>\<open>Game\<close>.

  \<^item> JavaScript numbers that hold counters, ranks and points are \<open>int\<close>.
  \<^item> Team names and question titles are \<open>string\<close>; they are only compared for equality.
  \<^item> Answer texts and guesses are sequences of UTF-16 code units (\<open>nat list\<close>),
    because the matching code folds case and diacritics; every character used here
    is one code unit.
  \<^item> A \<^verbatim>\<open>Set<number>\<close> is an \<open>int fset\<close>.
  \<^item> A \<^verbatim>\<open>Team\<close> object held by the game is referred to by its index in the
    \<^verbatim>\<open>teams\<close> array, which never changes its length.
  \<^item> \<^verbatim>\<open>Math.random()\<close> is an explicit argument of every operation that draws from it.
  \<^item> The calls into \<^verbatim>\<open>board\<close> and \<^verbatim>\<open>audio\<close> only write to the page and play sounds;
    the page is taken to have every element they look up, so they neither throw nor
    influence the state modelled here, and they are left out.
\<close>

subsection \<open>Data\<close>

type_synonym jsstring = "nat list"

record answer =
  ans :: jsstring
  lp :: int
  apoints :: int

record question =
  qname :: string
  answers :: "answer list"

record team =
  tname :: string
  tpoints :: int
  terrors :: int

datatype ROUND_STATUS = DEFAULT | STOLEN

record round =
  right :: int
  status :: ROUND_STATUS
  rpoints :: int
  revealed :: "int fset"
  question :: question

record questionStore =
  random :: bool
  questions :: "question list"
  currentQuestionIndex :: int

text \<open>
  \<^verbatim>\<open>UndoSnapshot\<close> without its \<^verbatim>\<open>board\<close> field (the captured page). The array
  \<^verbatim>\<open>revealed\<close> is a copy of the members of the round's set and is only ever turned
  back into a set, so the snapshot keeps the member set.
\<close>

record undoSnapshot =
  s_roundCount :: int
  s_pendingNextRound :: bool
  s_currentTeam :: string
  s_questionsStoreIndex :: int
  s_roundQuestion :: question
  s_roundStatus :: ROUND_STATUS
  s_roundPoints :: int
  s_roundRight :: int
  s_revealed :: "int fset"
  s_teamState :: "(string \<times> int \<times> int) list"

text \<open>
  The field \<^verbatim>\<open>currentTeam\<close> is assigned by the constructor (through
  \<^verbatim>\<open>setRandomTeam\<close>) and only ever holds a string afterwards; the empty string is
  the falsy value that stands for "no team".
\<close>

record game =
  teams :: "team list"
  questionsStore :: questionStore
  roundCount :: int
  pendingNextRound :: bool
  undoStack :: "undoSnapshot list"
  theRound :: round
  currentTeam :: string

datatype js_error = TypeError

subsection \<open>Team\<close>

definition addPoints :: "int \<Rightarrow> team \<Rightarrow> team" where
  "addPoints n t = t\<lparr>tpoints := tpoints t + n\<rparr>"

definition setPoints :: "int \<Rightarrow> team \<Rightarrow> team" where
  "setPoints n t = t\<lparr>tpoints := max 0 n\<rparr>"

definition addError :: "team \<Rightarrow> team" where
  "addError t = t\<lparr>terrors := terrors t + 1\<rparr>"

definition removeError :: "team \<Rightarrow> team" where
  "removeError t = t\<lparr>terrors := max 0 (terrors t - 1)\<rparr>"

definition setErrors :: "int \<Rightarrow> team \<Rightarrow> team" where
  "setErrors errorCnt t = t\<lparr>terrors := max 0 errorCnt\<rparr>"

definition resetErrors :: "team \<Rightarrow> team" where
  "resetErrors t = t\<lparr>terrors := 0\<rparr>"

definition newTeam :: "string \<Rightarrow> team" where
  "newTeam n = \<lparr>tname = n, tpoints = 0, terrors = 0\<rparr>"

subsection \<open>Question and QuestionStore\<close>

text \<open>
  An entry of a raw answer array (\<^verbatim>\<open>any[]\<close> read from \<^verbatim>\<open>data.json\<close>): one of the
  falsy JSON-like values, or an object with the three fields the \<^verbatim>\<open>Answer\<close>
  constructor reads.
\<close>

datatype rawAnswer =
  RawNull | RawUndefined | RawFalse | RawZero | RawNaN | RawEmptyString
  | RawObject jsstring int int

fun truthy :: "rawAnswer \<Rightarrow> bool" where
  "truthy (RawObject a l p) = True"
| "truthy _ = False"

text \<open>
  The \<^verbatim>\<open>Answer\<close> constructor reads \<^verbatim>\<open>ans\<close>, \<^verbatim>\<open>lp\<close> and \<^verbatim>\<open>points\<close> of its
  argument. On \<^verbatim>\<open>null\<close> and \<^verbatim>\<open>undefined\<close> that read throws; on the other falsy
  values it yields an object whose three fields are \<^verbatim>\<open>undefined\<close>, which is not a
  value of the record \<open>answer\<close>: the model has no \<open>answer\<close> to return in either case.
\<close>

fun newAnswer :: "rawAnswer \<Rightarrow> js_error + answer" where
  "newAnswer (RawObject a l p) = Inr \<lparr>ans = a, lp = l, apoints = p\<rparr>"
| "newAnswer _ = Inl TypeError"

text \<open>The \<^verbatim>\<open>Question\<close> constructor takes \<^verbatim>\<open>(Answer | null)[]\<close> and drops the nulls.\<close>

definition newQuestion :: "string \<Rightarrow> answer option list \<Rightarrow> question" where
  "newQuestion n as = \<lparr>qname = n, answers = map the (filter (\<lambda>a. a \<noteq> None) as)\<rparr>"

definition getAnswersWords :: "question \<Rightarrow> jsstring list" where
  "getAnswersWords q = map ans (answers q)"

text \<open>\<^verbatim>\<open>Array.prototype.map\<close> with a callback that may throw: the first throw ends it.\<close>

fun mapThrowing :: "('a \<Rightarrow> js_error + 'b) \<Rightarrow> 'a list \<Rightarrow> js_error + 'b list" where
  "mapThrowing f [] = Inr []"
| "mapThrowing f (x # xs) =
     (case f x of
        Inl e \<Rightarrow> Inl e
      | Inr y \<Rightarrow> (case mapThrowing f xs of Inl e \<Rightarrow> Inl e | Inr ys \<Rightarrow> Inr (y # ys)))"

definition parseQuestion :: "string \<times> rawAnswer list \<Rightarrow> js_error + question" where
  "parseQuestion entry =
     (case mapThrowing newAnswer (filter truthy (snd entry)) of
        Inl e \<Rightarrow> Inl e
      | Inr parsedAnswers \<Rightarrow> Inr (newQuestion (fst entry) (map Some parsedAnswers)))"

text \<open>The raw dataset is the list \<^verbatim>\<open>Object.entries(questions)\<close>.\<close>

definition parseQuestions :: "(string \<times> rawAnswer list) list \<Rightarrow> js_error + question list" where
  "parseQuestions raw = mapThrowing parseQuestion raw"

text \<open>
  Fisher-Yates, from \<open>i = length - 1\<close> down to \<open>1\<close>. \<open>pick i\<close> is the value of
  \<^verbatim>\<open>Math.floor(Math.random() * (i + 1))\<close> drawn in the iteration for \<open>i\<close>.
\<close>

fun shuffleLoop :: "(nat \<Rightarrow> nat) \<Rightarrow> nat \<Rightarrow> 'a list \<Rightarrow> 'a list" where
  "shuffleLoop pick 0 copy = copy"
| "shuffleLoop pick (Suc k) copy =
     shuffleLoop pick k (copy[Suc k := copy ! pick (Suc k), pick (Suc k) := copy ! Suc k])"

definition shuffleQuestions :: "(nat \<Rightarrow> nat) \<Rightarrow> 'a list \<Rightarrow> 'a list" where
  "shuffleQuestions pick qs = shuffleLoop pick (length qs - 1) qs"

definition newQuestionStore ::
  "(nat \<Rightarrow> nat) \<Rightarrow> (string \<times> rawAnswer list) list \<Rightarrow> bool \<Rightarrow> js_error + questionStore" where
  "newQuestionStore pick raw rnd =
     (case parseQuestions raw of
        Inl e \<Rightarrow> Inl e
      | Inr qs \<Rightarrow>
          Inr \<lparr>random = rnd,
               questions = (if rnd then shuffleQuestions pick qs else qs),
               currentQuestionIndex = 0\<rparr>)"

text \<open>JavaScript's \<^verbatim>\<open>%\<close> on integers: the remainder takes the sign of the dividend.\<close>

definition jsrem :: "int \<Rightarrow> int \<Rightarrow> int" where
  "jsrem a b = (if a < 0 then - ((- a) mod \<bar>b\<bar>) else a mod \<bar>b\<bar>)"

text \<open>
  \<^verbatim>\<open>getNextQuestion\<close>: \<^verbatim>\<open>undefined\<close> is \<open>None\<close>; reading the array outside its
  bounds gives \<^verbatim>\<open>undefined\<close> too.
\<close>

definition getNextQuestion :: "questionStore \<Rightarrow> question option \<times> questionStore" where
  "getNextQuestion s =
     (if length (questions s) = 0 then (None, s)
      else
        (let i = currentQuestionIndex s;
             q = (if 0 \<le> i \<and> i < int (length (questions s))
                  then Some (questions s ! nat i) else None)
         in (q, s\<lparr>currentQuestionIndex := jsrem (i + 1) (int (length (questions s)))\<rparr>)))"

definition getQuestion :: "questionStore \<Rightarrow> question option \<times> questionStore" where
  "getQuestion s = getNextQuestion s"

text \<open>
  \<^verbatim>\<open>setCurrentQuestionIndex\<close>: an integer always passes the \<^verbatim>\<open>Number.isFinite\<close> test
  the method starts with.
\<close>

definition setCurrentQuestionIndex :: "int \<Rightarrow> questionStore \<Rightarrow> questionStore" where
  "setCurrentQuestionIndex index s =
     (if length (questions s) = 0 then s\<lparr>currentQuestionIndex := 0\<rparr>
      else
        (let n = int (length (questions s))
         in s\<lparr>currentQuestionIndex := jsrem (jsrem index n + n) n\<rparr>))"

subsection \<open>Round: the methods that only touch the round\<close>

definition newRound :: "question \<Rightarrow> round" where
  "newRound q = \<lparr>right = 0, status = DEFAULT, rpoints = 0, revealed = {||}, question = q\<rparr>"

definition checkFinish :: "round \<Rightarrow> bool" where
  "checkFinish r = (int (length (answers (question r))) = right r)"

definition revealAnswerOnly :: "answer \<Rightarrow> round \<Rightarrow> round" where
  "revealAnswerOnly a r =
     (if lp a |\<in>| revealed r then r
      else r\<lparr>revealed := finsert (lp a) (revealed r), right := right r + 1\<rparr>)"

subsection \<open>Game: snapshots and the active team\<close>

primrec findIndex :: "('a \<Rightarrow> bool) \<Rightarrow> 'a list \<Rightarrow> nat option" where
  "findIndex P [] = None"
| "findIndex P (x # xs) = (if P x then Some 0 else map_option Suc (findIndex P xs))"

definition takeSnapshot :: "game \<Rightarrow> undoSnapshot" where
  "takeSnapshot g =
     \<lparr>s_roundCount = roundCount g,
      s_pendingNextRound = pendingNextRound g,
      s_currentTeam = (if currentTeam g = [] then [] else currentTeam g),
      s_questionsStoreIndex = currentQuestionIndex (questionsStore g),
      s_roundQuestion = question (theRound g),
      s_roundStatus = status (theRound g),
      s_roundPoints = rpoints (theRound g),
      s_roundRight = right (theRound g),
      s_revealed = revealed (theRound g),
      s_teamState = map (\<lambda>t. (tname t, tpoints t, terrors t)) (teams g)\<rparr>"

text \<open>The head of \<open>undoStack\<close> is the top of the stack.\<close>

definition pushUndoSnapshot :: "game \<Rightarrow> game" where
  "pushUndoSnapshot g = g\<lparr>undoStack := takeSnapshot g # undoStack g\<rparr>"

definition setCurrentTeam :: "string \<Rightarrow> bool \<Rightarrow> game \<Rightarrow> game" where
  "setCurrentTeam teamName skipUndo g =
     (if \<not> skipUndo then pushUndoSnapshot g else g)\<lparr>currentTeam := teamName\<rparr>"

text \<open>\<^verbatim>\<open>getCurrentTeam\<close> returns the index of the team object, \<open>None\<close> for \<^verbatim>\<open>null\<close>.\<close>

definition getCurrentTeam :: "game \<Rightarrow> nat option" where
  "getCurrentTeam g =
     (if currentTeam g = [] then None
      else findIndex (\<lambda>t. tname t = currentTeam g) (teams g))"

definition switchCurrentTeam :: "game \<Rightarrow> game" where
  "switchCurrentTeam g =
     (case find (\<lambda>t. tname t \<noteq> currentTeam g) (teams g) of
        Some otherTeam \<Rightarrow> setCurrentTeam (tname otherTeam) True g
      | None \<Rightarrow> g)"

text \<open>
  \<open>coin\<close> is \<^verbatim>\<open>Math.round(Math.random()) = 1\<close>. Reading \<^verbatim>\<open>teams\<close> outside its
  bounds gives \<^verbatim>\<open>undefined\<close>, and the call of \<^verbatim>\<open>getName\<close> on it throws.
\<close>

definition setRandomTeam :: "bool \<Rightarrow> game \<Rightarrow> js_error + game" where
  "setRandomTeam coin g =
     (let i = (if coin then 1 else 0 :: nat)
      in if i < length (teams g) then Inr (setCurrentTeam (tname (teams g ! i)) True g)
         else Inl TypeError)"

subsection \<open>Round: the methods that act on the game\<close>

definition multiplier :: "int \<Rightarrow> int" where
  "multiplier rc = (if rc = 4 then 2 else if rc = 5 then 3 else 1)"

text \<open>\<^verbatim>\<open>finishGame\<close> only shows the winner on the page: the state is returned as it is.\<close>

definition finishRound :: "game \<Rightarrow> game" where
  "finishRound g =
     (let awardedPoints = rpoints (theRound g) * multiplier (roundCount g)
      in case getCurrentTeam g of
           Some j \<Rightarrow>
             (let g1 = g\<lparr>teams := (teams g)[j := addPoints awardedPoints (teams g ! j)]\<rparr>
              in if tpoints (teams g1 ! j) \<ge> 400 then g1
                 else (switchCurrentTeam g1)\<lparr>pendingNextRound := True\<rparr>)
         | None \<Rightarrow> (switchCurrentTeam g)\<lparr>pendingNextRound := True\<rparr>)"

definition setBoardAnswer :: "answer \<Rightarrow> game \<Rightarrow> game" where
  "setBoardAnswer a g =
     (let r = theRound g
      in if lp a |\<in>| revealed r then g
         else
           (let r1 = r\<lparr>revealed := finsert (lp a) (revealed r),
                       right := right r + 1,
                       rpoints := rpoints r + apoints a\<rparr>;
                g1 = g\<lparr>theRound := r1\<rparr>
            in if checkFinish r1 \<or> status r1 = STOLEN then finishRound g1 else g1))"

text \<open>\<open>i\<close> is the index of the \<^verbatim>\<open>team\<close> argument, as returned by \<open>getCurrentTeam\<close>.\<close>

definition setBoardError :: "nat \<Rightarrow> game \<Rightarrow> game" where
  "setBoardError i g =
     (let g1 = g\<lparr>teams := (teams g)[i := addError (teams g ! i)]\<rparr>
      in if status (theRound g1) = STOLEN then
           (let g2 = switchCurrentTeam g1;
                awardedPoints = rpoints (theRound g2) * multiplier (roundCount g2)
            in case getCurrentTeam g2 of
                 Some j \<Rightarrow>
                   (let g3 = g2\<lparr>teams := (teams g2)[j := addPoints awardedPoints (teams g2 ! j)]\<rparr>
                    in if tpoints (teams g3 ! j) \<ge> 400 then g3
                       else (switchCurrentTeam g3)\<lparr>pendingNextRound := True\<rparr>)
               | None \<Rightarrow> (switchCurrentTeam g2)\<lparr>pendingNextRound := True\<rparr>)
         else if terrors (teams g1 ! i) = 3 then
           (let g2 = switchCurrentTeam g1
            in g2\<lparr>theRound := (theRound g2)\<lparr>status := STOLEN\<rparr>\<rparr>)
         else g1)"

subsection \<open>Game: the operations\<close>

definition resetTeamsErrors :: "game \<Rightarrow> game" where
  "resetTeamsErrors g = g\<lparr>teams := map resetErrors (teams g)\<rparr>"

text \<open>
  \<^verbatim>\<open>new Round(undefined)\<close> throws when the store has no question; the assignments made
  before the throw are not observed through the result.
\<close>

definition startNewRound :: "bool \<Rightarrow> game \<Rightarrow> js_error + game" where
  "startNewRound coin g =
     (let g1 = pushUndoSnapshot g;
          g2 = g1\<lparr>pendingNextRound := False\<rparr>;
          g3 = resetTeamsErrors g2;
          g4 = g3\<lparr>roundCount := roundCount g3 + 1\<rparr>
      in case getQuestion (questionsStore g4) of
           (None, st) \<Rightarrow> Inl TypeError
         | (Some q, st) \<Rightarrow> setRandomTeam coin (g4\<lparr>questionsStore := st, theRound := newRound q\<rparr>))"

definition advanceToNextRound :: "bool \<Rightarrow> game \<Rightarrow> js_error + bool \<times> game" where
  "advanceToNextRound coin g =
     (if \<not> pendingNextRound g then Inr (False, g)
      else case startNewRound coin g of
             Inl e \<Rightarrow> Inl e
           | Inr g' \<Rightarrow> Inr (True, g'))"

definition revealAnswerByNumber :: "int \<Rightarrow> game \<Rightarrow> bool \<times> game" where
  "revealAnswerByNumber number g =
     (case find (\<lambda>a. lp a = number) (answers (question (theRound g))) of
        None \<Rightarrow> (False, g)
      | Some answer \<Rightarrow>
          (let g1 = pushUndoSnapshot g
           in if getCurrentTeam g1 = None then
                (let g2 = g1\<lparr>theRound := revealAnswerOnly answer (theRound g1)\<rparr>
                 in (True, if checkFinish (theRound g2) then g2\<lparr>pendingNextRound := True\<rparr> else g2))
              else (True, setBoardAnswer answer g1)))"

subsection \<open>Matching a guess\<close>

text \<open>
  \<^verbatim>\<open>String.prototype.toLowerCase\<close> and \<^verbatim>\<open>normalize('NFKD')\<close> are tables of the
  platform. The model has their rows for Basic Latin and for the letters of the Polish
  alphabet (the recogniser runs with \<^verbatim>\<open>lang = 'pl-PL'\<close>); every other code point is
  left as it is.
\<close>

definition toLowerCaseChar :: "nat \<Rightarrow> nat" where
  "toLowerCaseChar c =
     (if 65 \<le> c \<and> c \<le> 90 then c + 32
      else if c = 211 then 243
      else if c \<in> {260, 262, 280, 321, 323, 346, 377, 379} then c + 1
      else c)"

definition toLowerCase :: "jsstring \<Rightarrow> jsstring" where
  "toLowerCase s = map toLowerCaseChar s"

definition nfkdChar :: "nat \<Rightarrow> jsstring" where
  "nfkdChar c =
     (if c = 260 then [65, 808] else if c = 261 then [97, 808]
      else if c = 262 then [67, 769] else if c = 263 then [99, 769]
      else if c = 280 then [69, 808] else if c = 281 then [101, 808]
      else if c = 323 then [78, 769] else if c = 324 then [110, 769]
      else if c = 211 then [79, 769] else if c = 243 then [111, 769]
      else if c = 346 then [83, 769] else if c = 347 then [115, 769]
      else if c = 377 then [90, 769] else if c = 378 then [122, 769]
      else if c = 379 then [90, 775] else if c = 380 then [122, 775]
      else [c])"

definition normalizeNFKD :: "jsstring \<Rightarrow> jsstring" where
  "normalizeNFKD s = concat (map nfkdChar s)"

text \<open>The classes \<^verbatim>\<open>\w\<close> and \<^verbatim>\<open>\s\<close> of a regular expression without the \<^verbatim>\<open>u\<close> flag.\<close>

definition isWordChar :: "nat \<Rightarrow> bool" where
  "isWordChar c = ((48 \<le> c \<and> c \<le> 57) \<or> (65 \<le> c \<and> c \<le> 90) \<or> (97 \<le> c \<and> c \<le> 122) \<or> c = 95)"

definition isSpaceChar :: "nat \<Rightarrow> bool" where
  "isSpaceChar c =
     ((9 \<le> c \<and> c \<le> 13) \<or> c = 32 \<or> c = 160 \<or> c = 5760 \<or> (8192 \<le> c \<and> c \<le> 8202)
      \<or> c = 8232 \<or> c = 8233 \<or> c = 8239 \<or> c = 8287 \<or> c = 12288 \<or> c = 65279)"

text \<open>
  \<^verbatim>\<open>input.replace(/\u0142/g, "l").normalize('NFKD').replace(/[^\w\s.-_\/]/g, '')\<close>.
  Inside the character class, \<^verbatim>\<open>.-_\<close> is the range from \<^verbatim>\<open>.\<close> (46) to \<^verbatim>\<open>_\<close> (95),
  which contains \<^verbatim>\<open>/\<close>.
\<close>

definition keptChar :: "nat \<Rightarrow> bool" where
  "keptChar c = (isWordChar c \<or> isSpaceChar c \<or> (46 \<le> c \<and> c \<le> 95) \<or> c = 47)"

definition removeDiacritics :: "jsstring \<Rightarrow> jsstring" where
  "removeDiacritics input =
     filter keptChar (normalizeNFKD (map (\<lambda>c. if c = 322 then 108 else c) input))"

definition resolvePlayerAnswer :: "jsstring \<Rightarrow> game \<Rightarrow> answer option" where
  "resolvePlayerAnswer playerAnswer g =
     find (\<lambda>answer. toLowerCase (ans answer) = removeDiacritics playerAnswer)
          (answers (question (theRound g)))"

definition handlePlayerAnswer :: "jsstring \<Rightarrow> game \<Rightarrow> game" where
  "handlePlayerAnswer playerAnswer g =
     (let g1 = pushUndoSnapshot g;
          result = resolvePlayerAnswer playerAnswer g1
      in case getCurrentTeam g1 of
           None \<Rightarrow>
             (case result of
                Some answer \<Rightarrow>
                  (let g2 = g1\<lparr>theRound := revealAnswerOnly answer (theRound g1)\<rparr>
                   in if checkFinish (theRound g2) then g2\<lparr>pendingNextRound := True\<rparr> else g2)
              | None \<Rightarrow> g1)
         | Some i \<Rightarrow>
             (case result of
                Some answer \<Rightarrow> setBoardAnswer answer g1
              | None \<Rightarrow> setBoardError i g1))"

definition addErrorForSelectedTeam :: "game \<Rightarrow> bool \<times> game" where
  "addErrorForSelectedTeam g =
     (case getCurrentTeam g of
        None \<Rightarrow> (False, g)
      | Some i \<Rightarrow> (True, setBoardError i (pushUndoSnapshot g)))"

subsection \<open>Undo\<close>

definition restoreTeam :: "string \<times> int \<times> int \<Rightarrow> team list \<Rightarrow> team list" where
  "restoreTeam st ts =
     (case findIndex (\<lambda>t. tname t = fst st) ts of
        None \<Rightarrow> ts
      | Some i \<Rightarrow> ts[i := setErrors (snd (snd st)) (setPoints (fst (snd st)) (ts ! i))])"

definition undo :: "game \<Rightarrow> bool \<times> game" where
  "undo g =
     (case undoStack g of
        [] \<Rightarrow> (False, g)
      | snapshot # rest \<Rightarrow>
          (True,
           setCurrentTeam (s_currentTeam snapshot) True
             (g\<lparr>undoStack := rest,
                roundCount := s_roundCount snapshot,
                pendingNextRound := s_pendingNextRound snapshot,
                questionsStore :=
                  setCurrentQuestionIndex (s_questionsStoreIndex snapshot) (questionsStore g),
                teams := fold restoreTeam (s_teamState snapshot) (teams g),
                theRound :=
                  (newRound (s_roundQuestion snapshot))
                    \<lparr>status := s_roundStatus snapshot,
                     rpoints := s_roundPoints snapshot,
                     right := s_roundRight snapshot,
                     revealed := s_revealed snapshot\<rparr>\<rparr>)))"

text \<open>The constructor of \<^verbatim>\<open>Game\<close>.\<close>

definition newGame :: "team list \<Rightarrow> questionStore \<Rightarrow> bool \<Rightarrow> js_error + game" where
  "newGame ts store coin =
     (case getQuestion store of
        (None, st) \<Rightarrow> Inl TypeError
      | (Some q, st) \<Rightarrow>
          setRandomTeam coin
            \<lparr>teams = ts, questionsStore = st, roundCount = 1, pendingNextRound = False,
             undoStack = [], theRound = newRound q, currentTeam = []\<rparr>)"

text \<open>An error recorded for the active team: the game after \<open>addErrorForSelectedTeam\<close>.\<close>

definition recordError :: "game \<Rightarrow> game" where
  "recordError g = snd (addErrorForSelectedTeam g)"

text \<open>Exactly two teams, with distinct names, none of them the empty string.\<close>

definition twoTeams :: "game \<Rightarrow> bool" where
  "twoTeams g =
     (length (teams g) = 2 \<and> distinct (map tname (teams g)) \<and> [] \<notin> set (map tname (teams g)))"

subsection \<open>Sequences of calls\<close>

text \<open>
  The forward mutating calls of the public interface. \<open>forward a g\<close> is the game after
  the call, and \<open>None\<close> when the call is not a forward mutating action in \<open>g\<close>: it
  returns \<^verbatim>\<open>false\<close> without touching the game (a rank that is not in the question,
  no active team, no pending round) or it throws.
\<close>

datatype action =
  HandlePlayerAnswer jsstring
  | RevealAnswerByNumber int
  | AddErrorForSelectedTeam
  | SetCurrentTeam string
  | AdvanceToNextRound bool

fun forward :: "action \<Rightarrow> game \<Rightarrow> game option" where
  "forward (HandlePlayerAnswer s) g = Some (handlePlayerAnswer s g)"
| "forward (RevealAnswerByNumber n) g =
     (case revealAnswerByNumber n g of (True, g') \<Rightarrow> Some g' | (False, g') \<Rightarrow> None)"
| "forward AddErrorForSelectedTeam g =
     (case addErrorForSelectedTeam g of (True, g') \<Rightarrow> Some g' | (False, g') \<Rightarrow> None)"
| "forward (SetCurrentTeam n) g = Some (setCurrentTeam n False g)"
| "forward (AdvanceToNextRound coin) g =
     (case advanceToNextRound coin g of
        Inr (True, g') \<Rightarrow> Some g'
      | Inr (False, g') \<Rightarrow> None
      | Inl e \<Rightarrow> None)"

fun run_forward :: "action list \<Rightarrow> game \<Rightarrow> game option" where
  "run_forward [] g = Some g"
| "run_forward (a # as) g =
     (case forward a g of None \<Rightarrow> None | Some g' \<Rightarrow> run_forward as g')"

fun undos :: "nat \<Rightarrow> game \<Rightarrow> game" where
  "undos 0 g = g"
| "undos (Suc n) g = undos n (snd (undo g))"

text \<open>
  The ranges the data model gives to the fields that \<open>undo\<close> writes through clamping
  or normalising setters: team names identify teams, points and error counts are not
  negative, and the cursor of the store is an index of its list (0 for an empty list).
\<close>

definition wellFormed :: "game \<Rightarrow> bool" where
  "wellFormed g =
     (distinct (map tname (teams g)) \<and>
      (\<forall>t \<in> set (teams g). 0 \<le> tpoints t \<and> 0 \<le> terrors t) \<and>
      (if questions (questionsStore g) = [] then currentQuestionIndex (questionsStore g) = 0
       else 0 \<le> currentQuestionIndex (questionsStore g) \<and>
            currentQuestionIndex (questionsStore g) < int (length (questions (questionsStore g)))))"

text \<open>
  A session over a dataset without negative point values: the game is well-formed,
  and no question of the store, of the round or of a snapshot has a negative point
  value, nor is the accumulated round total negative, in the round or in a snapshot.
\<close>

definition nonnegQuestion :: "question \<Rightarrow> bool" where
  "nonnegQuestion q = (\<forall>a \<in> set (answers q). 0 \<le> apoints a)"

definition sessionInv :: "game \<Rightarrow> bool" where
  "sessionInv g =
     (wellFormed g \<and>
      0 \<le> rpoints (theRound g) \<and> nonnegQuestion (question (theRound g)) \<and>
      (\<forall>q \<in> set (questions (questionsStore g)). nonnegQuestion q) \<and>
      (\<forall>s \<in> set (undoStack g). 0 \<le> s_roundPoints s \<and> nonnegQuestion (s_roundQuestion s)))"

text \<open>What no operation of the game changes.\<close>

definition static :: "game \<Rightarrow> string list \<times> question list \<times> bool" where
  "static g = (map tname (teams g), questions (questionsStore g), random (questionsStore g))"

subsection \<open>Reachable games\<close>

text \<open>
  The games of a session: the one the constructor returns, and every game a call of
  the public interface leads to from there.
\<close>

inductive reachable :: "game \<Rightarrow> bool" where
  constructed: "newGame ts store coin = Inr g \<Longrightarrow> reachable g"
| answered: "reachable g \<Longrightarrow> reachable (handlePlayerAnswer s g)"
| revealedByNumber: "reachable g \<Longrightarrow> reachable (snd (revealAnswerByNumber n g))"
| erred: "reachable g \<Longrightarrow> reachable (snd (addErrorForSelectedTeam g))"
| selected: "reachable g \<Longrightarrow> reachable (setCurrentTeam n False g)"
| advanced: "reachable g \<Longrightarrow> advanceToNextRound coin g = Inr (b, g') \<Longrightarrow> reachable g'"
| undone: "reachable g \<Longrightarrow> reachable (snd (undo g))"

text \<open>
  The right counter is the size of the revealed set, in the round and in every
  snapshot on the undo stack.
\<close>

definition rightCountsRevealed :: "game \<Rightarrow> bool" where
  "rightCountsRevealed g =
     (right (theRound g) = int (fcard (revealed (theRound g))) \<and>
      (\<forall>s \<in> set (undoStack g). s_roundRight s = int (fcard (s_revealed s))))"

subsection \<open>What the specification says of parsing and matching\<close>

text \<open>
  From the specification: the answers of a stored question are the entries of the raw
  list that are neither null nor otherwise falsy, in their order.
\<close>

fun spec_validAnswers :: "rawAnswer list \<Rightarrow> answer list" where
  "spec_validAnswers [] = []"
| "spec_validAnswers (RawObject a l p # rs) = \<lparr>ans = a, lp = l, apoints = p\<rparr> # spec_validAnswers rs"
| "spec_validAnswers (r # rs) = spec_validAnswers rs"

definition spec_question :: "string \<times> rawAnswer list \<Rightarrow> question" where
  "spec_question entry = \<lparr>qname = fst entry, answers = spec_validAnswers (snd entry)\<rparr>"

text \<open>
  From the specification: two texts differ only by letter case and diacritic marks when
  they are equal after folding both.
\<close>

definition spec_sameUpToCaseAndDiacritics :: "jsstring \<Rightarrow> jsstring \<Rightarrow> bool" where
  "spec_sameUpToCaseAndDiacritics s t =
     (toLowerCase (removeDiacritics s) = toLowerCase (removeDiacritics t))"

subsection \<open>A concrete session\<close>

text \<open>
  Two teams and a dataset of two questions, in file order; the answers are "kot" and
  "pies", and the Polish word for yellow, whose code points are 380, 243, 322, 116, 121.
  \<open>exGame\<close> is the game the constructor builds from them when the coin selects the
  first team.
\<close>

definition exRaw :: "(string \<times> rawAnswer list) list" where
  "exRaw =
     [(''Zwierze domowe'',
        [RawObject [107, 111, 116] 1 40, RawNull, RawObject [112, 105, 101, 115] 2 30]),
      (''Kolor'', [RawObject [380, 243, 322, 116, 121] 1 60])]"

definition exQuestion :: question where
  "exQuestion =
     \<lparr>qname = ''Zwierze domowe'',
      answers = [\<lparr>ans = [107, 111, 116], lp = 1, apoints = 40\<rparr>,
                 \<lparr>ans = [112, 105, 101, 115], lp = 2, apoints = 30\<rparr>]\<rparr>"

definition exQuestion2 :: question where
  "exQuestion2 =
     \<lparr>qname = ''Kolor'',
      answers = [\<lparr>ans = [380, 243, 322, 116, 121], lp = 1, apoints = 60\<rparr>]\<rparr>"

definition exStore :: questionStore where
  "exStore = \<lparr>random = False, questions = [exQuestion, exQuestion2], currentQuestionIndex = 0\<rparr>"

definition exTeams :: "team list" where
  "exTeams = [newTeam ''blue'', newTeam ''red'']"

definition exGame :: game where
  "exGame =
     \<lparr>teams = exTeams,
      questionsStore = \<lparr>random = False, questions = [exQuestion, exQuestion2],
                        currentQuestionIndex = 1\<rparr>,
      roundCount = 1, pendingNextRound = False, undoStack = [],
      theRound = newRound exQuestion, currentTeam = ''blue''\<rparr>"

text \<open>
  A steal in round 5: red has erred three times, blue is active and one answer is on
  the board.
\<close>

definition exStealGame :: game where
  "exStealGame =
     exGame
       \<lparr>teams := [\<lparr>tname = ''blue'', tpoints = 290, terrors = 0\<rparr>,
                  \<lparr>tname = ''red'', tpoints = 100, terrors = 3\<rparr>],
        roundCount := 5,
        theRound := \<lparr>right = 1, status = STOLEN, rpoints = 40, revealed = {|1|},
                     question = exQuestion\<rparr>\<rparr>"

text \<open>
  Blue answers "kot", errs once, the operator selects red, answer 2 is revealed for
  red (which completes the round), and the next round is started.
\<close>

definition exActions :: "action list" where
  "exActions =
     [HandlePlayerAnswer [107, 111, 116], AddErrorForSelectedTeam, SetCurrentTeam ''red'',
      RevealAnswerByNumber 2, AdvanceToNextRound True]"

text \<open>The first game with no team selected.\<close>

definition exIdleGame :: game where
  "exIdleGame = exGame\<lparr>currentTeam := []\<rparr>"

text \<open>Blue errs three times in the first game; then red errs once.\<close>

definition exTwoErrors :: game where
  "exTwoErrors = recordError (recordError exGame)"

definition exThreeErrors :: game where
  "exThreeErrors = recordError exTwoErrors"

definition exFailedSteal :: game where
  "exFailedSteal = recordError exThreeErrors"

text \<open>The steal of \<open>exStealGame\<close> resolved by an error of blue.\<close>

definition exResolved :: game where
  "exResolved = recordError exStealGame"

text \<open>The game after \<open>exActions\<close>: round 2, with the question about the colour.\<close>

definition exSecondRound :: game where
  "exSecondRound = the (run_forward exActions exGame)"

text \<open>
  Answer 1 is revealed for blue in the first game, blue errs three times, and red
  errs once: the steal is resolved.
\<close>

definition exStealSession :: game where
  "exStealSession =
     recordError (recordError (recordError (recordError (snd (revealAnswerByNumber 1 exGame)))))"

section \<open>Properties\<close>

subsection \<open>Auxiliary facts\<close>

lemma findIndex_Some_lt: "findIndex P xs = Some i \<Longrightarrow> i < length xs"
  by (induction xs arbitrary: i) (auto split: if_splits)

lemma findIndex_Some_P: "findIndex P xs = Some i \<Longrightarrow> P (xs ! i)"
  by (induction xs arbitrary: i) (auto split: if_splits)

lemma find_Some_P: "find P xs = Some x \<Longrightarrow> P x"
  by (induction xs) (auto split: if_splits)

lemma getCurrentTeam_lt: "getCurrentTeam g = Some i \<Longrightarrow> i < length (teams g)"
  by (auto simp: getCurrentTeam_def dest: findIndex_Some_lt split: if_splits)

lemma switchCurrentTeam_frame [simp]:
  "teams (switchCurrentTeam g) = teams g"
  "theRound (switchCurrentTeam g) = theRound g"
  "roundCount (switchCurrentTeam g) = roundCount g"
  "pendingNextRound (switchCurrentTeam g) = pendingNextRound g"
  "undoStack (switchCurrentTeam g) = undoStack g"
  "questionsStore (switchCurrentTeam g) = questionsStore g"
  by (auto simp: switchCurrentTeam_def setCurrentTeam_def split: option.splits)

lemma pushUndoSnapshot_frame [simp]:
  "teams (pushUndoSnapshot g) = teams g"
  "theRound (pushUndoSnapshot g) = theRound g"
  "roundCount (pushUndoSnapshot g) = roundCount g"
  "pendingNextRound (pushUndoSnapshot g) = pendingNextRound g"
  "currentTeam (pushUndoSnapshot g) = currentTeam g"
  "questionsStore (pushUndoSnapshot g) = questionsStore g"
  "undoStack (pushUndoSnapshot g) = takeSnapshot g # undoStack g"
  by (simp_all add: pushUndoSnapshot_def)

lemma getCurrentTeam_pushUndoSnapshot [simp]:
  "getCurrentTeam (pushUndoSnapshot g) = getCurrentTeam g"
  by (simp add: getCurrentTeam_def)

lemma finishRound_theRound [simp]: "theRound (finishRound g) = theRound g"
  by (simp add: finishRound_def Let_def split: option.splits)

lemmas ex_defs =
  exResolved_def exFailedSteal_def exThreeErrors_def exTwoErrors_def exIdleGame_def exStealGame_def exGame_def exStore_def exTeams_def exQuestion_def exQuestion2_def newTeam_def newRound_def

lemmas op_defs =
  setBoardAnswer_def revealAnswerOnly_def setBoardError_def finishRound_def
  switchCurrentTeam_def setCurrentTeam_def getCurrentTeam_def pushUndoSnapshot_def
  takeSnapshot_def checkFinish_def multiplier_def addPoints_def addError_def Let_def

subsection \<open>Revealing a rank twice\<close>

lemma reveal_rank_already_revealed_lemma:
  assumes "lp a |\<in>| revealed (theRound g)"
  shows "setBoardAnswer a g = g"
    and "revealAnswerOnly a (theRound g) = theRound g"
  using assms by (simp_all add: setBoardAnswer_def revealAnswerOnly_def Let_def)

lemma revealAnswerByNumber_revealed:
  assumes "number |\<in>| revealed (theRound g)"
  shows "theRound (snd (revealAnswerByNumber number g)) = theRound g \<and>
         teams (snd (revealAnswerByNumber number g)) = teams g"
proof (cases "find (\<lambda>a. lp a = number) (answers (question (theRound g)))")
  case None
  then show ?thesis by (simp add: revealAnswerByNumber_def)
next
  case (Some a)
  then have "lp a = number" by (auto dest: find_Some_P)
  with assms have "lp a |\<in>| revealed (theRound (pushUndoSnapshot g))" by simp
  then show ?thesis using Some
    by (simp add: revealAnswerByNumber_def Let_def reveal_rank_already_revealed_lemma)
qed

lemma handlePlayerAnswer_revealed:
  assumes "resolvePlayerAnswer guess g = Some a" "lp a |\<in>| revealed (theRound g)"
  shows "theRound (handlePlayerAnswer guess g) = theRound g \<and>
         teams (handlePlayerAnswer guess g) = teams g"
proof -
  have r: "resolvePlayerAnswer guess (pushUndoSnapshot g) = Some a"
    using assms(1) by (simp add: resolvePlayerAnswer_def)
  have "lp a |\<in>| revealed (theRound (pushUndoSnapshot g))" using assms(2) by simp
  then show ?thesis using r
    by (simp add: handlePlayerAnswer_def Let_def reveal_rank_already_revealed_lemma
        split: option.splits)
qed

text \<open>
  Claim C8. Revealing a rank that is already in the round's revealed set is a no-op on
  either path: \<open>setBoardAnswer\<close> (awarding) returns the game as it is, and
  \<open>revealAnswerOnly\<close> (non-awarding) returns the round as it is, so round points, the
  right counter, the revealed set and the status are unchanged; through
  \<open>revealAnswerByNumber\<close> and \<open>handlePlayerAnswer\<close> the round and the teams (hence
  team points) are unchanged as well.
\<close>

theorem reveal_revealed_rank_is_noop:
  assumes "lp a |\<in>| revealed (theRound g)"
  shows "setBoardAnswer a g = g \<and>
         revealAnswerOnly a (theRound g) = theRound g \<and>
         theRound (snd (revealAnswerByNumber (lp a) g)) = theRound g \<and>
         teams (snd (revealAnswerByNumber (lp a) g)) = teams g \<and>
         (resolvePlayerAnswer guess g = Some a \<longrightarrow>
            theRound (handlePlayerAnswer guess g) = theRound g \<and>
            teams (handlePlayerAnswer guess g) = teams g)"
  using assms reveal_rank_already_revealed_lemma[OF assms]
    revealAnswerByNumber_revealed[OF assms] handlePlayerAnswer_revealed[of guess g a]
  by simp


theorem reveal_revealed_rank_is_noop_witness:
  "lp \<lparr>ans = [107, 111, 116], lp = 1, apoints = 40\<rparr>
     |\<in>| revealed (theRound (snd (revealAnswerByNumber 1 exGame))) \<and>
   resolvePlayerAnswer [107, 111, 116] (snd (revealAnswerByNumber 1 exGame))
     = Some \<lparr>ans = [107, 111, 116], lp = 1, apoints = 40\<rparr> \<and>
   setBoardAnswer \<lparr>ans = [107, 111, 116], lp = 1, apoints = 40\<rparr>
       (snd (revealAnswerByNumber 1 exGame)) = snd (revealAnswerByNumber 1 exGame) \<and>
   theRound (snd (revealAnswerByNumber 1 (snd (revealAnswerByNumber 1 exGame))))
     = theRound (snd (revealAnswerByNumber 1 exGame)) \<and>
   teams (handlePlayerAnswer [107, 111, 116] (snd (revealAnswerByNumber 1 exGame)))
     = teams (snd (revealAnswerByNumber 1 exGame))"
proof -
  have h: "lp \<lparr>ans = [107, 111, 116], lp = 1, apoints = 40\<rparr>
     |\<in>| revealed (theRound (snd (revealAnswerByNumber 1 exGame)))"
    by (simp add: revealAnswerByNumber_def ex_defs op_defs)
  have r: "resolvePlayerAnswer [107, 111, 116] (snd (revealAnswerByNumber 1 exGame))
     = Some \<lparr>ans = [107, 111, 116], lp = 1, apoints = 40\<rparr>"
    by (simp add: revealAnswerByNumber_def resolvePlayerAnswer_def ex_defs op_defs
        toLowerCase_def toLowerCaseChar_def removeDiacritics_def normalizeNFKD_def
        nfkdChar_def keptChar_def isWordChar_def isSpaceChar_def)
  show ?thesis
    using h r reveal_revealed_rank_is_noop[OF h, of "[107, 111, 116]"] by simp
qed

subsection \<open>The award at the end of a round\<close>

lemma findIndex_names:
  "map tname ts' = map tname ts \<Longrightarrow>
   findIndex (\<lambda>t. tname t = c) ts' = findIndex (\<lambda>t. tname t = c) ts"
proof (induction ts arbitrary: ts')
  case Nil
  then show ?case by simp
next
  case (Cons t ts)
  then obtain t' ts1 where "ts' = t' # ts1" by (cases ts') auto
  with Cons show ?case by auto
qed

lemma find_other_names:
  "map tname ts' = map tname ts \<Longrightarrow>
   map_option tname (find (\<lambda>t. tname t \<noteq> c) ts') = map_option tname (find (\<lambda>t. tname t \<noteq> c) ts)"
proof (induction ts arbitrary: ts')
  case Nil
  then show ?case by simp
next
  case (Cons t ts)
  then obtain t' ts1 where "ts' = t' # ts1" by (cases ts') auto
  with Cons show ?case by auto
qed

lemma switchCurrentTeam_names:
  assumes "map tname (teams g') = map tname (teams g)" "currentTeam g' = currentTeam g"
  shows "currentTeam (switchCurrentTeam g') = currentTeam (switchCurrentTeam g)"
  using find_other_names[OF assms(1), of "currentTeam g"] assms(2)
  by (auto simp: switchCurrentTeam_def setCurrentTeam_def split: option.splits)

lemma getCurrentTeam_names:
  assumes "map tname (teams g') = map tname (teams g)" "currentTeam g' = currentTeam g"
  shows "getCurrentTeam g' = getCurrentTeam g"
  using findIndex_names[OF assms(1), of "currentTeam g"] assms(2)
  by (simp add: getCurrentTeam_def)

lemma map_update_same:
  "(\<And>x. f (h x) = f x) \<Longrightarrow> map f (xs[i := h (xs ! i)]) = map f xs"
  by (cases "i < length xs") (auto simp: list_eq_iff_nth_eq nth_list_update)

lemma map_tname_addError [simp]: "map tname (ts[i := addError (ts ! i)]) = map tname ts"
  by (rule map_update_same) (simp add: addError_def)

lemma map_tname_addPoints [simp]: "map tname (ts[i := addPoints n (ts ! i)]) = map tname ts"
  by (rule map_update_same) (simp add: addPoints_def)

lemma tpoints_addError_nth [simp]:
  "tpoints (ts[i := addError (ts ! i)] ! j) = tpoints (ts ! j)"
  by (cases "i < length ts"; cases "i = j") (simp_all add: addError_def list_update_beyond)

lemma finishRound_gain:
  assumes "getCurrentTeam g = Some j"
  shows "tpoints (teams (finishRound g) ! j)
           = tpoints (teams g ! j) + rpoints (theRound g) * multiplier (roundCount g)"
  using assms getCurrentTeam_lt[OF assms]
  by (simp add: finishRound_def Let_def addPoints_def)

lemma finishRound_won:
  assumes "getCurrentTeam g = Some j"
    and "tpoints (teams g ! j) + rpoints (theRound g) * multiplier (roundCount g) \<ge> 400"
  shows "finishRound g =
           g\<lparr>teams := (teams g)[j := addPoints (rpoints (theRound g) * multiplier (roundCount g))
                                       (teams g ! j)]\<rparr>"
  using assms getCurrentTeam_lt[OF assms(1)]
  by (simp add: finishRound_def Let_def addPoints_def)

lemma setBoardAnswer_gain:
  assumes "getCurrentTeam g = Some j"
    and "\<not> lp a |\<in>| revealed (theRound g)"
    and "int (length (answers (question (theRound g)))) = right (theRound g) + 1
         \<or> status (theRound g) = STOLEN"
  shows "tpoints (teams (setBoardAnswer a g) ! j)
           = tpoints (teams g ! j)
             + (rpoints (theRound g) + apoints a) * multiplier (roundCount g)"
proof -
  let ?r1 = "(theRound g)\<lparr>revealed := finsert (lp a) (revealed (theRound g)),
                           right := right (theRound g) + 1,
                           rpoints := rpoints (theRound g) + apoints a\<rparr>"
  let ?g1 = "g\<lparr>theRound := ?r1\<rparr>"
  have c: "getCurrentTeam ?g1 = Some j"
    using getCurrentTeam_names[of ?g1 g] assms(1) by simp
  have "setBoardAnswer a g = finishRound ?g1"
    using assms(2,3) by (auto simp: setBoardAnswer_def Let_def checkFinish_def)
  then show ?thesis using finishRound_gain[OF c] by simp
qed

lemma setBoardError_stolen_gain:
  assumes "status (theRound g) = STOLEN"
    and "getCurrentTeam (switchCurrentTeam g) = Some j"
  shows "tpoints (teams (setBoardError i g) ! j)
           = tpoints (teams g ! j) + rpoints (theRound g) * multiplier (roundCount g)"
proof -
  let ?g1 = "g\<lparr>teams := (teams g)[i := addError (teams g ! i)]\<rparr>"
  have n: "map tname (teams ?g1) = map tname (teams g)" "currentTeam ?g1 = currentTeam g"
    by simp_all
  have n2: "map tname (teams (switchCurrentTeam ?g1)) = map tname (teams (switchCurrentTeam g))"
    by simp
  have c: "getCurrentTeam (switchCurrentTeam ?g1) = Some j"
    using getCurrentTeam_names[OF n2 switchCurrentTeam_names[OF n]] assms(2) by simp
  have j: "j < length (teams g)" using getCurrentTeam_lt[OF assms(2)] by simp
  show ?thesis using assms(1) c j
    by (simp add: setBoardError_def Let_def addPoints_def)
qed

text \<open>
  Claim C2. The multiplier is 2 in round 4, 3 in round 5 and 1 otherwise. Whenever a
  round is finished, the team that is active at the award gains the round's points
  times the multiplier of the round number: in \<open>finishRound\<close>; in a reveal that
  completes the round or resolves a steal (where the round's points include the answer
  just revealed); and in an error that resolves a steal, where the award goes to the
  team made active by the switch that precedes it. The comparison with 400 is made on
  the total after the award and nothing caps that total: when it is reached the game
  is returned with the award added and nothing else changed.
\<close>

theorem round_award_gain:
  "multiplier rc = (if rc = 4 then 2 else if rc = 5 then 3 else 1) \<and>
   (getCurrentTeam g = Some j \<longrightarrow>
      tpoints (teams (finishRound g) ! j)
        = tpoints (teams g ! j) + rpoints (theRound g) * multiplier (roundCount g)) \<and>
   (getCurrentTeam g = Some j \<and> \<not> lp a |\<in>| revealed (theRound g) \<and>
    (int (length (answers (question (theRound g)))) = right (theRound g) + 1
     \<or> status (theRound g) = STOLEN) \<longrightarrow>
      tpoints (teams (setBoardAnswer a g) ! j)
        = tpoints (teams g ! j)
          + (rpoints (theRound g) + apoints a) * multiplier (roundCount g)) \<and>
   (status (theRound g) = STOLEN \<and> getCurrentTeam (switchCurrentTeam g) = Some k \<longrightarrow>
      tpoints (teams (setBoardError i g) ! k)
        = tpoints (teams g ! k) + rpoints (theRound g) * multiplier (roundCount g)) \<and>
   (getCurrentTeam g = Some j \<and>
    tpoints (teams g ! j) + rpoints (theRound g) * multiplier (roundCount g) \<ge> 400 \<longrightarrow>
      finishRound g =
        g\<lparr>teams := (teams g)[j := addPoints (rpoints (theRound g) * multiplier (roundCount g))
                                    (teams g ! j)]\<rparr>)"
  using finishRound_gain[of g j] setBoardAnswer_gain[of g j a]
    setBoardError_stolen_gain[of g k i] finishRound_won[of g j]
  by (simp add: multiplier_def)


theorem round_award_gain_witness:
  "getCurrentTeam exStealGame = Some 0 \<and>
   \<not> lp \<lparr>ans = [112, 105, 101, 115], lp = 2, apoints = 30\<rparr>
       |\<in>| revealed (theRound exStealGame) \<and>
   status (theRound exStealGame) = STOLEN \<and>
   getCurrentTeam (switchCurrentTeam exStealGame) = Some 1 \<and>
   multiplier (roundCount exStealGame) = 3 \<and>
   tpoints (teams (finishRound exStealGame) ! 0) = 290 + 40 * 3 \<and>
   tpoints (teams (setBoardAnswer \<lparr>ans = [112, 105, 101, 115], lp = 2, apoints = 30\<rparr>
                      exStealGame) ! 0) = 290 + (40 + 30) * 3 \<and>
   tpoints (teams (setBoardError 0 exStealGame) ! 1) = 100 + 40 * 3 \<and>
   tpoints (teams exStealGame ! 0) + rpoints (theRound exStealGame)
       * multiplier (roundCount exStealGame) \<ge> 400 \<and>
   finishRound exStealGame =
     exStealGame\<lparr>teams := [\<lparr>tname = ''blue'', tpoints = 410, terrors = 0\<rparr>,
                             \<lparr>tname = ''red'', tpoints = 100, terrors = 3\<rparr>]\<rparr>"
  using round_award_gain[of 5 exStealGame 0
      "\<lparr>ans = [112, 105, 101, 115], lp = 2, apoints = 30\<rparr>" 1 0]
  by (simp add: ex_defs switchCurrentTeam_def setCurrentTeam_def getCurrentTeam_def
      multiplier_def addPoints_def)

subsection \<open>Undo\<close>

lemma findIndex_append_first:
  "(\<forall>x \<in> set pre. \<not> P x) \<Longrightarrow> P y \<Longrightarrow> findIndex P (pre @ y # zs) = Some (length pre)"
  by (induction pre) auto

lemma restoreTeam_own_state:
  assumes "tname t' = tname t" "tname t \<notin> tname ` set pre" "0 \<le> tpoints t" "0 \<le> terrors t"
  shows "restoreTeam (tname t, tpoints t, terrors t) (pre @ t' # rest) = pre @ t # rest"
proof -
  have "findIndex (\<lambda>x. tname x = tname t) (pre @ t' # rest) = Some (length pre)"
    using assms(1,2) by (intro findIndex_append_first) (metis imageI, simp)
  moreover have "setErrors (terrors t) (setPoints (tpoints t) t') = t"
    using assms(1,3,4) by (simp add: setErrors_def setPoints_def)
  ultimately show ?thesis by (simp add: restoreTeam_def)
qed

lemma fold_restoreTeam_own_states:
  assumes "map tname ts' = map tname ts"
    and "distinct (map tname (pre @ ts))"
    and "\<forall>t \<in> set ts. 0 \<le> tpoints t \<and> 0 \<le> terrors t"
  shows "fold restoreTeam (map (\<lambda>t. (tname t, tpoints t, terrors t)) ts) (pre @ ts') = pre @ ts"
  using assms
proof (induction ts arbitrary: pre ts')
  case Nil
  then show ?case by simp
next
  case (Cons t ts)
  then obtain t' ts1 where ts': "ts' = t' # ts1" by (cases ts') auto
  have step: "restoreTeam (tname t, tpoints t, terrors t) (pre @ t' # ts1) = pre @ t # ts1"
    using Cons.prems ts' by (intro restoreTeam_own_state) auto
  have "fold restoreTeam (map (\<lambda>t. (tname t, tpoints t, terrors t)) ts) ((pre @ [t]) @ ts1)
          = (pre @ [t]) @ ts"
    using Cons.prems ts' by (intro Cons.IH) auto
  then show ?case using step ts' by simp
qed

lemma restore_teams:
  assumes "map tname ts' = map tname ts" "distinct (map tname ts)"
    and "\<forall>t \<in> set ts. 0 \<le> tpoints t \<and> 0 \<le> terrors t"
  shows "fold restoreTeam (map (\<lambda>t. (tname t, tpoints t, terrors t)) ts) ts' = ts"
  using fold_restoreTeam_own_states[of ts' ts "[]"] assms by simp

lemma map_tname_restoreTeam [simp]: "map tname (restoreTeam st ts) = map tname ts"
  by (auto simp: restoreTeam_def setErrors_def setPoints_def intro!: map_update_same
      split: option.splits)

lemma map_tname_fold_restoreTeam [simp]: "map tname (fold restoreTeam sts ts) = map tname ts"
  by (induction sts arbitrary: ts) auto

lemma jsrem_in_range: "0 \<le> i \<Longrightarrow> i < n \<Longrightarrow> jsrem (jsrem i n + n) n = i"
  by (simp add: jsrem_def)

lemma restore_store:
  assumes "questions s' = questions s" "random s' = random s"
    and "if questions s = [] then currentQuestionIndex s = 0
         else 0 \<le> currentQuestionIndex s \<and> currentQuestionIndex s < int (length (questions s))"
  shows "setCurrentQuestionIndex (currentQuestionIndex s) s' = s"
  using assms
  by (cases "questions s = []") (simp_all add: setCurrentQuestionIndex_def Let_def jsrem_in_range)

lemma restore_round:
  "(newRound (question r))\<lparr>status := status r, rpoints := rpoints r, right := right r,
                            revealed := revealed r\<rparr> = r"
  by (simp add: newRound_def)

lemma undo_restores:
  assumes "undoStack y = takeSnapshot g # undoStack g" "static y = static g" "wellFormed g"
  shows "undo y = (True, g)"
proof -
  have t: "fold restoreTeam (s_teamState (takeSnapshot g)) (teams y) = teams g"
    using assms(2,3) by (simp add: takeSnapshot_def static_def wellFormed_def restore_teams)
  have q: "setCurrentQuestionIndex (s_questionsStoreIndex (takeSnapshot g)) (questionsStore y)
             = questionsStore g"
    using assms(2,3) by (simp add: takeSnapshot_def static_def wellFormed_def restore_store)
  show ?thesis
    using assms(1) t q
    by (simp add: undo_def setCurrentTeam_def) (simp add: takeSnapshot_def restore_round)
qed


lemma finishRound_frame [simp]:
  "undoStack (finishRound g) = undoStack g" "static (finishRound g) = static g"
  by (simp_all add: finishRound_def Let_def static_def split: option.splits)

lemma setBoardAnswer_frame [simp]:
  "undoStack (setBoardAnswer a g) = undoStack g" "static (setBoardAnswer a g) = static g"
  by (simp_all add: setBoardAnswer_def Let_def) (simp_all add: static_def)

lemma setBoardError_frame [simp]:
  "undoStack (setBoardError i g) = undoStack g" "static (setBoardError i g) = static g"
  by (simp_all add: setBoardError_def Let_def static_def split: option.splits)

lemma static_pushUndoSnapshot [simp]: "static (pushUndoSnapshot g) = static g"
  by (simp add: static_def)

lemma handlePlayerAnswer_frame:
  "undoStack (handlePlayerAnswer s g) = takeSnapshot g # undoStack g"
  "static (handlePlayerAnswer s g) = static g"
  by (simp_all add: handlePlayerAnswer_def Let_def split: option.splits)
     (simp_all add: static_def)

lemma revealAnswerByNumber_frame:
  assumes "revealAnswerByNumber n g = (True, g')"
  shows "undoStack g' = takeSnapshot g # undoStack g" "static g' = static g"
  using assms
  by (auto simp: revealAnswerByNumber_def Let_def split: option.splits if_splits)
     (simp_all add: static_def)

lemma addErrorForSelectedTeam_frame:
  assumes "addErrorForSelectedTeam g = (True, g')"
  shows "undoStack g' = takeSnapshot g # undoStack g" "static g' = static g"
  using assms by (auto simp: addErrorForSelectedTeam_def split: option.splits)

lemma setCurrentTeam_frame:
  "undoStack (setCurrentTeam n False g) = takeSnapshot g # undoStack g"
  "static (setCurrentTeam n False g) = static g"
  by (simp_all add: setCurrentTeam_def static_def)

lemma getQuestion_frame:
  "questions (snd (getQuestion s)) = questions s" "random (snd (getQuestion s)) = random s"
  by (simp_all add: getQuestion_def getNextQuestion_def Let_def)

lemma startNewRound_frame:
  assumes "startNewRound coin g = Inr g'"
  shows "undoStack g' = takeSnapshot g # undoStack g" "static g' = static g"
  using assms getQuestion_frame[of "questionsStore g"]
  by (auto simp: startNewRound_def Let_def setRandomTeam_def setCurrentTeam_def
      resetTeamsErrors_def resetErrors_def static_def comp_def
      split: prod.splits option.splits if_splits)

lemma forward_frame:
  assumes "forward a g = Some g'"
  shows "undoStack g' = takeSnapshot g # undoStack g \<and> static g' = static g"
proof (cases a)
  case (HandlePlayerAnswer s)
  then show ?thesis using assms handlePlayerAnswer_frame[of s g] by auto
next
  case (RevealAnswerByNumber n)
  then show ?thesis using assms revealAnswerByNumber_frame[of n g g']
    by (auto split: prod.splits bool.splits)
next
  case AddErrorForSelectedTeam
  then show ?thesis using assms addErrorForSelectedTeam_frame[of g g']
    by (auto split: prod.splits bool.splits)
next
  case (SetCurrentTeam n)
  then show ?thesis using assms setCurrentTeam_frame[of n g] by auto
next
  case (AdvanceToNextRound coin)
  then show ?thesis using assms startNewRound_frame[of coin g g']
    by (auto simp: advanceToNextRound_def split: sum.splits prod.splits bool.splits if_splits)
qed

lemma run_forward_stack:
  assumes "run_forward acts g = Some g'"
  shows "static g' = static g \<and>
         (\<exists>ss. undoStack g' = ss @ undoStack g \<and> length ss = length acts \<and>
               (acts \<noteq> [] \<longrightarrow> last ss = takeSnapshot g))"
  using assms
proof (induction acts arbitrary: g)
  case Nil
  then show ?case by simp
next
  case (Cons a acts)
  then obtain g1 where f: "forward a g = Some g1" and r: "run_forward acts g1 = Some g'"
    by (auto split: option.splits)
  from Cons.IH[OF r] obtain ss where
    ss: "static g' = static g1" "undoStack g' = ss @ undoStack g1" "length ss = length acts"
    by blast
  from forward_frame[OF f] have
    g1: "undoStack g1 = takeSnapshot g # undoStack g" "static g1 = static g" by simp_all
  have "undoStack g' = (ss @ [takeSnapshot g]) @ undoStack g" using ss(2) g1(1) by simp
  moreover have "length (ss @ [takeSnapshot g]) = length (a # acts)" using ss(3) by simp
  moreover have "last (ss @ [takeSnapshot g]) = takeSnapshot g" by simp
  ultimately show ?case using ss(1) g1(2) by metis
qed

lemma undo_pop:
  assumes "undoStack x = s # st"
  shows "undoStack (snd (undo x)) = st" "static (snd (undo x)) = static x"
  using assms
  by (simp_all add: undo_def setCurrentTeam_def static_def setCurrentQuestionIndex_def Let_def)

lemma undos_pop:
  assumes "undoStack x = ss @ st"
  shows "undoStack (undos (length ss) x) = st \<and> static (undos (length ss) x) = static x"
  using assms
proof (induction ss arbitrary: x)
  case Nil
  then show ?case by simp
next
  case (Cons s ss)
  then have "undoStack x = s # (ss @ st)" by simp
  from undo_pop[OF this] Cons.IH[of "snd (undo x)"] show ?case by simp
qed

lemma undos_Suc_right: "undos (Suc n) g = snd (undo (undos n g))"
  by (induction n arbitrary: g) simp_all

text \<open>
  Claim C1. From a well-formed game, any sequence of forward mutating actions followed
  by as many calls of \<open>undo\<close> gives back the game before the first action: the round
  (question, revealed set, status, points, right counter), both teams, the active
  team, the round counter, \<open>pendingNextRound\<close>, the cursor of the store, and the undo
  stack as well.
\<close>

theorem undo_exactness:
  assumes "wellFormed g" "run_forward acts g = Some g'"
  shows "undos (length acts) g' = g"
proof (cases acts rule: rev_cases)
  case Nil
  then show ?thesis using assms(2) by simp
next
  case (snoc acts0 a0)
  from run_forward_stack[OF assms(2)] snoc obtain ss where
    ss: "static g' = static g" "undoStack g' = ss @ undoStack g" "length ss = length acts"
        "last ss = takeSnapshot g"
    by auto
  then have "ss \<noteq> []" using snoc by auto
  then obtain ss0 where ss0: "ss = ss0 @ [takeSnapshot g]"
    using ss(4) by (metis append_butlast_last_id)
  let ?y = "undos (length ss0) g'"
  have "undoStack g' = ss0 @ (takeSnapshot g # undoStack g)" using ss(2) ss0 by simp
  from undos_pop[OF this] have
    y: "undoStack ?y = takeSnapshot g # undoStack g" "static ?y = static g'" by simp_all
  have "undo ?y = (True, g)" using undo_restores[OF y(1) _ assms(1)] y(2) ss(1) by simp
  moreover have "length acts = Suc (length ss0)" using ss(3) ss0 by simp
  ultimately show ?thesis by (simp add: undos_Suc_right del: undos.simps)
qed


lemmas match_defs =
  resolvePlayerAnswer_def toLowerCase_def toLowerCaseChar_def removeDiacritics_def
  normalizeNFKD_def nfkdChar_def keptChar_def isWordChar_def isSpaceChar_def

lemmas game_defs =
  handlePlayerAnswer_def revealAnswerByNumber_def addErrorForSelectedTeam_def
  advanceToNextRound_def startNewRound_def setRandomTeam_def resetTeamsErrors_def
  resetErrors_def getQuestion_def getNextQuestion_def jsrem_def


theorem undo_exactness_witness:
  "wellFormed exGame \<and>
   run_forward exActions exGame \<noteq> None \<and>
   roundCount (the (run_forward exActions exGame)) = 2 \<and>
   undos (length exActions) (the (run_forward exActions exGame)) = exGame"
proof -
  have w: "wellFormed exGame" by (simp add: wellFormed_def ex_defs)
  have r: "run_forward exActions exGame \<noteq> None \<and>
           roundCount (the (run_forward exActions exGame)) = 2"
    by (simp add: exActions_def ex_defs game_defs op_defs match_defs)
  then obtain g' where g': "run_forward exActions exGame = Some g'" by auto
  show ?thesis using w r g' undo_exactness[OF w g'] by simp
qed


text \<open>
  Claim C9. A guess that matches no answer while no team is active changes nothing
  but the undo stack, which receives exactly one snapshot, the one of the game before
  the call. The next \<open>undo\<close> therefore succeeds, and from a well-formed game it gives
  back that game.
\<close>

theorem unmatched_guess_without_team:
  assumes "getCurrentTeam g = None" "resolvePlayerAnswer guess g = None"
  shows "handlePlayerAnswer guess g = g\<lparr>undoStack := takeSnapshot g # undoStack g\<rparr> \<and>
         fst (undo (handlePlayerAnswer guess g)) \<and>
         (wellFormed g \<longrightarrow> snd (undo (handlePlayerAnswer guess g)) = g)"
proof -
  have r: "resolvePlayerAnswer guess (pushUndoSnapshot g) = None"
    using assms(2) by (simp add: resolvePlayerAnswer_def)
  have h: "handlePlayerAnswer guess g = g\<lparr>undoStack := takeSnapshot g # undoStack g\<rparr>"
    using assms(1) r by (simp add: handlePlayerAnswer_def Let_def)
  have u: "fst (undo (handlePlayerAnswer guess g))" by (simp add: h undo_def)
  have "undo (handlePlayerAnswer guess g) = (True, g)" if "wellFormed g"
    using that by (intro undo_restores) (simp_all add: h static_def)
  then show ?thesis using h u by simp
qed

theorem unmatched_guess_without_team_witness:
  "getCurrentTeam exIdleGame = None \<and>
   resolvePlayerAnswer [114, 121, 98, 97] exIdleGame = None \<and>
   wellFormed exIdleGame \<and>
   length (undoStack (handlePlayerAnswer [114, 121, 98, 97] exIdleGame))
     = Suc (length (undoStack exIdleGame)) \<and>
   undo (handlePlayerAnswer [114, 121, 98, 97] exIdleGame) = (True, exIdleGame)"
proof -
  have a: "getCurrentTeam exIdleGame = None" by (simp add: ex_defs getCurrentTeam_def)
  have b: "resolvePlayerAnswer [114, 121, 98, 97] exIdleGame = None"
    by (simp add: ex_defs match_defs)
  have w: "wellFormed exIdleGame" by (simp add: wellFormed_def ex_defs)
  show ?thesis
    using a b w unmatched_guess_without_team[OF a b]
    by (cases "undo (handlePlayerAnswer [114, 121, 98, 97] exIdleGame)") simp
qed

subsection \<open>The right counter\<close>

lemma rightCountsRevealed_cong:
  "theRound g' = theRound g \<Longrightarrow> undoStack g' = undoStack g \<Longrightarrow>
   rightCountsRevealed g' = rightCountsRevealed g"
  by (simp add: rightCountsRevealed_def)

lemma rightCountsRevealed_push:
  "rightCountsRevealed g \<Longrightarrow> rightCountsRevealed (pushUndoSnapshot g)"
  by (simp add: rightCountsRevealed_def takeSnapshot_def)

lemma revealAnswerOnly_count:
  "right r = int (fcard (revealed r)) \<Longrightarrow>
   right (revealAnswerOnly a r) = int (fcard (revealed (revealAnswerOnly a r)))"
  by (simp add: revealAnswerOnly_def fcard_finsert_disjoint)

lemma rightCountsRevealed_setBoardAnswer:
  assumes "rightCountsRevealed g"
  shows "rightCountsRevealed (setBoardAnswer a g)"
proof (cases "lp a |\<in>| revealed (theRound g)")
  case True
  then show ?thesis using assms by (simp add: setBoardAnswer_def Let_def)
next
  case False
  let ?g1 = "g\<lparr>theRound := (theRound g)\<lparr>revealed := finsert (lp a) (revealed (theRound g)),
                 right := right (theRound g) + 1,
                 rpoints := rpoints (theRound g) + apoints a\<rparr>\<rparr>"
  have g1: "rightCountsRevealed ?g1"
    using assms False by (simp add: rightCountsRevealed_def fcard_finsert_disjoint)
  have "rightCountsRevealed (finishRound ?g1)"
    using g1 by (simp add: rightCountsRevealed_cong[of "finishRound ?g1" ?g1])
  then show ?thesis using g1 False by (simp add: setBoardAnswer_def Let_def)
qed

lemma setBoardError_round:
  "right (theRound (setBoardError i g)) = right (theRound g)"
  "revealed (theRound (setBoardError i g)) = revealed (theRound g)"
  "rpoints (theRound (setBoardError i g)) = rpoints (theRound g)"
  "question (theRound (setBoardError i g)) = question (theRound g)"
  by (simp_all add: setBoardError_def Let_def split: option.splits)

lemma rightCountsRevealed_setBoardError:
  "rightCountsRevealed g \<Longrightarrow> rightCountsRevealed (setBoardError i g)"
  by (simp add: rightCountsRevealed_def setBoardError_round)

lemma rightCountsRevealed_revealOnly:
  assumes "rightCountsRevealed g'" "right r = int (fcard (revealed r))"
  shows "rightCountsRevealed (g'\<lparr>theRound := revealAnswerOnly a r\<rparr>)"
    and "rightCountsRevealed (g'\<lparr>theRound := revealAnswerOnly a r,
                                  pendingNextRound := True\<rparr>)"
  using assms revealAnswerOnly_count[of r a]
  by (simp_all add: rightCountsRevealed_def)

lemma rightCountsRevealed_handlePlayerAnswer:
  assumes "rightCountsRevealed g"
  shows "rightCountsRevealed (handlePlayerAnswer s g)"
proof -
  have r: "right (theRound g) = int (fcard (revealed (theRound g)))"
    using assms by (simp add: rightCountsRevealed_def)
  note p = rightCountsRevealed_push[OF assms]
  show ?thesis
    using p
    by (simp add: handlePlayerAnswer_def Let_def rightCountsRevealed_setBoardAnswer
        rightCountsRevealed_setBoardError rightCountsRevealed_revealOnly[OF p r]
        split: option.splits)
qed

lemma rightCountsRevealed_revealAnswerByNumber:
  assumes "rightCountsRevealed g"
  shows "rightCountsRevealed (snd (revealAnswerByNumber n g))"
proof -
  have r: "right (theRound g) = int (fcard (revealed (theRound g)))"
    using assms by (simp add: rightCountsRevealed_def)
  note p = rightCountsRevealed_push[OF assms]
  show ?thesis
    using p assms
    by (simp add: revealAnswerByNumber_def Let_def rightCountsRevealed_setBoardAnswer
        rightCountsRevealed_revealOnly[OF p r] split: option.splits)
qed

lemma rightCountsRevealed_addErrorForSelectedTeam:
  assumes "rightCountsRevealed g"
  shows "rightCountsRevealed (snd (addErrorForSelectedTeam g))"
  using rightCountsRevealed_push[OF assms] assms
  by (simp add: addErrorForSelectedTeam_def rightCountsRevealed_setBoardError
      split: option.splits)

lemma rightCountsRevealed_setCurrentTeam:
  assumes "rightCountsRevealed g"
  shows "rightCountsRevealed (setCurrentTeam n skip g)"
  using rightCountsRevealed_push[OF assms] assms
  by (simp add: setCurrentTeam_def rightCountsRevealed_def)

lemma rightCountsRevealed_startNewRound:
  assumes "rightCountsRevealed g" "startNewRound coin g = Inr g'"
  shows "rightCountsRevealed g'"
  using assms
  by (auto simp: startNewRound_def Let_def setRandomTeam_def setCurrentTeam_def
      resetTeamsErrors_def rightCountsRevealed_def newRound_def pushUndoSnapshot_def
      takeSnapshot_def split: prod.splits option.splits if_splits)

lemma rightCountsRevealed_advanceToNextRound:
  assumes "rightCountsRevealed g" "advanceToNextRound coin g = Inr (b, g')"
  shows "rightCountsRevealed g'"
  using assms rightCountsRevealed_startNewRound[of g coin g']
  by (auto simp: advanceToNextRound_def split: if_splits sum.splits)

lemma rightCountsRevealed_undo:
  assumes "rightCountsRevealed g"
  shows "rightCountsRevealed (snd (undo g))"
  using assms
  by (auto simp: undo_def setCurrentTeam_def rightCountsRevealed_def newRound_def
      split: list.splits)

lemma rightCountsRevealed_newGame:
  assumes "newGame ts store coin = Inr g"
  shows "rightCountsRevealed g"
  using assms
  by (auto simp: newGame_def setRandomTeam_def setCurrentTeam_def rightCountsRevealed_def
      newRound_def Let_def split: prod.splits option.splits if_splits)

lemma reachable_rightCountsRevealed: "reachable g \<Longrightarrow> rightCountsRevealed g"
proof (induction rule: reachable.induct)
  case (constructed ts store coin g)
  then show ?case by (rule rightCountsRevealed_newGame)
next
  case (answered g s)
  then show ?case by (simp add: rightCountsRevealed_handlePlayerAnswer)
next
  case (revealedByNumber g n)
  then show ?case by (simp add: rightCountsRevealed_revealAnswerByNumber)
next
  case (erred g)
  then show ?case by (simp add: rightCountsRevealed_addErrorForSelectedTeam)
next
  case (selected g n)
  then show ?case by (simp add: rightCountsRevealed_setCurrentTeam)
next
  case (advanced g coin b g')
  then show ?case using rightCountsRevealed_advanceToNextRound by blast
next
  case (undone g)
  then show ?case by (simp add: rightCountsRevealed_undo)
qed


lemma newGame_exGame: "newGame exTeams exStore False = Inr exGame"
  by (simp add: newGame_def ex_defs getQuestion_def getNextQuestion_def jsrem_def
      setRandomTeam_def setCurrentTeam_def)

lemma reachable_exGame: "reachable exGame"
  using newGame_exGame by (rule reachable.constructed)

text \<open>
  Claim C7, as stated, fails: \<open>revealAnswerOnly\<close> increments the right counter. With no
  team selected, revealing answer 1 of the first game leaves the counter at 1 although
  no answer has been credited (the round's points and both teams' points are 0).
\<close>

theorem right_counter_counterexample:
  "right (revealAnswerOnly \<lparr>ans = [107, 111, 116], lp = 1, apoints = 40\<rparr> (newRound exQuestion))
     \<noteq> right (newRound exQuestion) \<and>
   reachable (snd (revealAnswerByNumber 1 (setCurrentTeam [] False exGame))) \<and>
   right (theRound (snd (revealAnswerByNumber 1 (setCurrentTeam [] False exGame)))) = 1 \<and>
   rpoints (theRound (snd (revealAnswerByNumber 1 (setCurrentTeam [] False exGame)))) = 0 \<and>
   map tpoints (teams (snd (revealAnswerByNumber 1 (setCurrentTeam [] False exGame)))) = [0, 0]"
proof -
  have "reachable (snd (revealAnswerByNumber 1 (setCurrentTeam [] False exGame)))"
    by (intro reachable.revealedByNumber reachable.selected reachable_exGame)
  then show ?thesis
    by (simp add: revealAnswerByNumber_def ex_defs op_defs)
qed

text \<open>
  Claim C7, amended. In every reachable game the right counter of the round equals
  the number of revealed ranks, whichever path revealed them.
\<close>

theorem right_counts_revealed:
  assumes "reachable g"
  shows "right (theRound g) = int (fcard (revealed (theRound g)))"
  using reachable_rightCountsRevealed[OF assms] by (simp add: rightCountsRevealed_def)

theorem right_counts_revealed_witness:
  "reachable (snd (revealAnswerByNumber 1 (setCurrentTeam [] False exGame))) \<and>
   right (theRound (snd (revealAnswerByNumber 1 (setCurrentTeam [] False exGame)))) = 1 \<and>
   revealed (theRound (snd (revealAnswerByNumber 1 (setCurrentTeam [] False exGame)))) = {|1|}"
proof -
  have r: "reachable (snd (revealAnswerByNumber 1 (setCurrentTeam [] False exGame)))"
    by (intro reachable.revealedByNumber reachable.selected reachable_exGame)
  have "revealed (theRound (snd (revealAnswerByNumber 1 (setCurrentTeam [] False exGame)))) = {|1|}"
    by (simp add: revealAnswerByNumber_def ex_defs op_defs)
  then show ?thesis using r right_counts_revealed[OF r] by (simp add: fcard_finsert_if)
qed

subsection \<open>The steal\<close>

lemma two_teams_getCurrentTeam:
  assumes "teams g = [a, b]" "tname a \<noteq> tname b" "tname a \<noteq> []" "tname b \<noteq> []"
  shows "currentTeam g = tname a \<Longrightarrow> getCurrentTeam g = Some 0"
    and "currentTeam g = tname b \<Longrightarrow> getCurrentTeam g = Some 1"
  using assms by (simp_all add: getCurrentTeam_def)

lemma two_teams_switchCurrentTeam:
  assumes "teams g = [a, b]" "tname a \<noteq> tname b"
  shows "switchCurrentTeam g =
           g\<lparr>currentTeam := (if currentTeam g = tname a then tname b else tname a)\<rparr>"
  using assms by (simp add: switchCurrentTeam_def setCurrentTeam_def)

lemma setBoardError_default:
  assumes "status (theRound g) = DEFAULT" "i < length (teams g)"
  shows "setBoardError i g =
           (if terrors (teams g ! i) = 2
            then (switchCurrentTeam g)
                   \<lparr>teams := (teams g)[i := addError (teams g ! i)],
                    theRound := (theRound g)\<lparr>status := STOLEN\<rparr>\<rparr>
            else g\<lparr>teams := (teams g)[i := addError (teams g ! i)]\<rparr>)"
proof -
  let ?g1 = "g\<lparr>teams := (teams g)[i := addError (teams g ! i)]\<rparr>"
  have n: "map tname (teams ?g1) = map tname (teams g)" "currentTeam ?g1 = currentTeam g"
    by simp_all
  have c: "currentTeam (switchCurrentTeam ?g1) = currentTeam (switchCurrentTeam g)"
    by (rule switchCurrentTeam_names[OF n])
  have s: "switchCurrentTeam ?g1 = (switchCurrentTeam g)\<lparr>teams := teams ?g1\<rparr>"
    using c by (intro game.equality) simp_all
  show ?thesis using assms
    by (simp add: setBoardError_def Let_def s) (simp add: addError_def)
qed


lemma setBoardError_stolen:
  assumes "status (theRound g) = STOLEN" "getCurrentTeam (switchCurrentTeam g) = Some k"
  shows "setBoardError i g =
           (let ts1 = (teams g)[i := addError (teams g ! i)];
                awardedPoints = rpoints (theRound g) * multiplier (roundCount g);
                ts2 = ts1[k := addPoints awardedPoints (ts1 ! k)]
            in if tpoints (teams g ! k) + awardedPoints \<ge> 400
               then (switchCurrentTeam g)\<lparr>teams := ts2\<rparr>
               else (switchCurrentTeam (switchCurrentTeam g))
                      \<lparr>teams := ts2, pendingNextRound := True\<rparr>)"
proof -
  let ?g1 = "g\<lparr>teams := (teams g)[i := addError (teams g ! i)]\<rparr>"
  let ?award = "rpoints (theRound g) * multiplier (roundCount g)"
  let ?ts2 = "(teams ?g1)[k := addPoints ?award (teams ?g1 ! k)]"
  have n: "map tname (teams ?g1) = map tname (teams g)" "currentTeam ?g1 = currentTeam g"
    by simp_all
  have c: "currentTeam (switchCurrentTeam ?g1) = currentTeam (switchCurrentTeam g)"
    by (rule switchCurrentTeam_names[OF n])
  have s: "switchCurrentTeam ?g1 = (switchCurrentTeam g)\<lparr>teams := teams ?g1\<rparr>"
    using c by (intro game.equality) simp_all
  have k: "getCurrentTeam (switchCurrentTeam ?g1) = Some k"
    using getCurrentTeam_names[of "switchCurrentTeam ?g1" "switchCurrentTeam g"] c assms(2)
    by simp
  have kl: "k < length (teams g)" using getCurrentTeam_lt[OF assms(2)] by simp
  let ?g3 = "(switchCurrentTeam ?g1)\<lparr>teams := ?ts2\<rparr>"
  have c3: "currentTeam (switchCurrentTeam ?g3)
              = currentTeam (switchCurrentTeam (switchCurrentTeam g))"
    by (rule switchCurrentTeam_names) (simp_all add: c)
  have s3: "switchCurrentTeam ?g3 = (switchCurrentTeam (switchCurrentTeam g))\<lparr>teams := ?ts2\<rparr>"
    using c3 by (intro game.equality) simp_all
  have p: "tpoints (?ts2 ! k) = tpoints (teams g ! k) + ?award"
    using kl by (simp add: addPoints_def)
  have "setBoardError i g =
          (if tpoints (?ts2 ! k) \<ge> 400 then ?g3
           else (switchCurrentTeam ?g3)\<lparr>pendingNextRound := True\<rparr>)"
    using assms(1) k by (simp add: setBoardError_def Let_def)
  then show ?thesis unfolding p s3 by (simp add: Let_def s)
qed

lemma setBoardError_keeps_stolen:
  "status (theRound g) = STOLEN \<Longrightarrow> status (theRound (setBoardError i g)) = STOLEN"
  by (simp add: setBoardError_def Let_def split: option.splits)

lemma setBoardAnswer_status [simp]:
  "status (theRound (setBoardAnswer a g)) = status (theRound g)"
  by (simp add: setBoardAnswer_def Let_def)

lemma revealAnswerOnly_status [simp]: "status (revealAnswerOnly a r) = status r"
  by (simp add: revealAnswerOnly_def)

lemma finishRound_pending:
  assumes "getCurrentTeam g = Some j"
  shows "pendingNextRound (finishRound g) =
           (if tpoints (teams g ! j) + rpoints (theRound g) * multiplier (roundCount g) \<ge> 400
            then pendingNextRound g else True)"
  using assms getCurrentTeam_lt[OF assms]
  by (simp add: finishRound_def Let_def addPoints_def)

lemma setBoardAnswer_stolen_pending:
  assumes "status (theRound g) = STOLEN" "getCurrentTeam g = Some j"
    and "\<not> lp a |\<in>| revealed (theRound g)"
  shows "pendingNextRound (setBoardAnswer a g) =
           (if tpoints (teams g ! j)
                 + (rpoints (theRound g) + apoints a) * multiplier (roundCount g) \<ge> 400
            then pendingNextRound g else True)"
proof -
  let ?g1 = "g\<lparr>theRound := (theRound g)\<lparr>revealed := finsert (lp a) (revealed (theRound g)),
                 right := right (theRound g) + 1,
                 rpoints := rpoints (theRound g) + apoints a\<rparr>\<rparr>"
  have c: "getCurrentTeam ?g1 = Some j"
    using getCurrentTeam_names[of ?g1 g] assms(2) by simp
  have "setBoardAnswer a g = finishRound ?g1"
    using assms(1,3) by (simp add: setBoardAnswer_def Let_def)
  then show ?thesis using finishRound_pending[OF c] by simp
qed



lemma twoTeams_cases:
  assumes "twoTeams g" "i < (2::nat)"
  obtains a b where "teams g = [a, b]" "tname a \<noteq> tname b" "tname a \<noteq> []" "tname b \<noteq> []"
    "i = 0 \<or> i = 1"
proof -
  from assms(1) obtain a b where ab: "teams g = [a, b]"
    by (auto simp: twoTeams_def length_Suc_conv numeral_2_eq_2)
  moreover have "tname a \<noteq> tname b" "tname a \<noteq> []" "tname b \<noteq> []"
    using assms(1) ab by (auto simp: twoTeams_def)
  moreover have "i = 0 \<or> i = 1" using assms(2) by auto
  ultimately show ?thesis using that by blast
qed

lemma twoTeams_getCurrentTeam:
  assumes "twoTeams g" "i < (2::nat)" "currentTeam g = tname (teams g ! i)"
  shows "getCurrentTeam g = Some i"
proof -
  from assms(1,2) obtain a b where
    "teams g = [a, b]" "tname a \<noteq> tname b" "tname a \<noteq> []" "tname b \<noteq> []" "i = 0 \<or> i = 1"
    by (rule twoTeams_cases)
  note ab = this
  from ab(5) show ?thesis
  proof
    assume "i = 0"
    then show ?thesis using two_teams_getCurrentTeam(1)[OF ab(1-4)] assms(3) ab(1) by simp
  next
    assume "i = 1"
    then show ?thesis using two_teams_getCurrentTeam(2)[OF ab(1-4)] assms(3) ab(1) by simp
  qed
qed

lemma twoTeams_switchCurrentTeam:
  assumes "twoTeams g" "i < (2::nat)" "currentTeam g = tname (teams g ! i)"
  shows "switchCurrentTeam g = g\<lparr>currentTeam := tname (teams g ! (1 - i))\<rparr>"
proof -
  from assms(1,2) obtain a b where
    "teams g = [a, b]" "tname a \<noteq> tname b" "tname a \<noteq> []" "tname b \<noteq> []" "i = 0 \<or> i = 1"
    by (rule twoTeams_cases)
  note ab = this
  from ab(5) show ?thesis
  proof
    assume "i = 0"
    then show ?thesis using two_teams_switchCurrentTeam[OF ab(1,2)] assms(3) ab(1) by simp
  next
    assume "i = 1"
    then show ?thesis using two_teams_switchCurrentTeam[OF ab(1,2)] assms(3) ab(1,2) by simp
  qed
qed

lemma twoTeams_upd [simp]:
  "twoTeams (g\<lparr>undoStack := u\<rparr>) = twoTeams g"
  "twoTeams (g\<lparr>currentTeam := c\<rparr>) = twoTeams g"
  "twoTeams (g\<lparr>theRound := r\<rparr>) = twoTeams g"
  "twoTeams (g\<lparr>pendingNextRound := p\<rparr>) = twoTeams g"
  "twoTeams (g\<lparr>teams := (teams g)[i := addError (teams g ! i)]\<rparr>) = twoTeams g"
  "twoTeams (g\<lparr>teams := (teams g)[i := addPoints n (teams g ! i)]\<rparr>) = twoTeams g"
  by (simp_all add: twoTeams_def)

lemma twoTeams_recordError_default:
  assumes "twoTeams g" "i < (2::nat)" "currentTeam g = tname (teams g ! i)"
    and "status (theRound g) = DEFAULT"
  shows "recordError g =
           (if terrors (teams g ! i) = 2
            then g\<lparr>undoStack := takeSnapshot g # undoStack g,
                   teams := (teams g)[i := addError (teams g ! i)],
                   currentTeam := tname (teams g ! (1 - i)),
                   theRound := (theRound g)\<lparr>status := STOLEN\<rparr>\<rparr>
            else g\<lparr>undoStack := takeSnapshot g # undoStack g,
                   teams := (teams g)[i := addError (teams g ! i)]\<rparr>)"
proof -
  let ?p = "pushUndoSnapshot g"
  have i: "i < length (teams g)" using assms(1,2) by (simp add: twoTeams_def)
  have c: "getCurrentTeam g = Some i" by (rule twoTeams_getCurrentTeam[OF assms(1-3)])
  have p: "twoTeams ?p" "currentTeam ?p = tname (teams ?p ! i)"
    using assms(1,3) by (simp_all add: pushUndoSnapshot_def)
  have "recordError g = setBoardError i ?p"
    using c by (simp add: recordError_def addErrorForSelectedTeam_def)
  also have "\<dots> = (if terrors (teams g ! i) = 2
            then (switchCurrentTeam ?p)
                   \<lparr>teams := (teams g)[i := addError (teams g ! i)],
                    theRound := (theRound g)\<lparr>status := STOLEN\<rparr>\<rparr>
            else ?p\<lparr>teams := (teams g)[i := addError (teams g ! i)]\<rparr>)"
    using assms(4) i by (subst setBoardError_default) simp_all
  finally show ?thesis
    by (simp add: twoTeams_switchCurrentTeam[OF p(1) assms(2) p(2)])
qed

lemma twoTeams_recordError_stolen:
  assumes "twoTeams g" "i < (2::nat)" "currentTeam g = tname (teams g ! i)"
    and "status (theRound g) = STOLEN"
  shows "recordError g =
           (let ts1 = (teams g)[i := addError (teams g ! i)];
                awardedPoints = rpoints (theRound g) * multiplier (roundCount g);
                ts2 = ts1[1 - i := addPoints awardedPoints (ts1 ! (1 - i))]
            in if tpoints (teams g ! (1 - i)) + awardedPoints \<ge> 400
               then g\<lparr>undoStack := takeSnapshot g # undoStack g, teams := ts2,
                      currentTeam := tname (teams g ! (1 - i))\<rparr>
               else g\<lparr>undoStack := takeSnapshot g # undoStack g, teams := ts2,
                      pendingNextRound := True\<rparr>)"
proof -
  let ?p = "pushUndoSnapshot g"
  let ?s = "?p\<lparr>currentTeam := tname (teams g ! (1 - i))\<rparr>"
  have c: "getCurrentTeam g = Some i" by (rule twoTeams_getCurrentTeam[OF assms(1-3)])
  have p: "twoTeams ?p" "currentTeam ?p = tname (teams ?p ! i)"
    using assms(1,3) by (simp_all add: pushUndoSnapshot_def)
  have sw: "switchCurrentTeam ?p = ?s"
    using twoTeams_switchCurrentTeam[OF p(1) assms(2) p(2)] by simp
  have s: "twoTeams ?s" "1 - i < 2" "currentTeam ?s = tname (teams ?s ! (1 - i))"
    using assms(1,2) by (simp_all add: pushUndoSnapshot_def)
  have k: "getCurrentTeam (switchCurrentTeam ?p) = Some (1 - i)"
    unfolding sw by (rule twoTeams_getCurrentTeam[OF s])
  have sw2: "switchCurrentTeam ?s = ?p"
    using twoTeams_switchCurrentTeam[OF s] assms(2,3)
    by (simp add: pushUndoSnapshot_def)
  have "recordError g = setBoardError i ?p"
    using c by (simp add: recordError_def addErrorForSelectedTeam_def)
  also note setBoardError_stolen[of ?p "1 - i" i, OF _ k]
  finally have "recordError g =
           (let ts1 = (teams g)[i := addError (teams g ! i)];
                awardedPoints = rpoints (theRound g) * multiplier (roundCount g);
                ts2 = ts1[1 - i := addPoints awardedPoints (ts1 ! (1 - i))]
            in if tpoints (teams g ! (1 - i)) + awardedPoints \<ge> 400
               then (switchCurrentTeam ?p)\<lparr>teams := ts2\<rparr>
               else (switchCurrentTeam (switchCurrentTeam ?p))
                      \<lparr>teams := ts2, pendingNextRound := True\<rparr>)"
    using assms(4) by simp
  then show ?thesis unfolding sw sw2 by (simp add: pushUndoSnapshot_def Let_def)
qed


lemma tname_addError_nth [simp]: "tname (ts[i := addError (ts ! i)] ! j) = tname (ts ! j)"
  by (cases "i < length ts"; cases "i = j") (simp_all add: addError_def list_update_beyond)

lemma tname_addPoints_nth [simp]: "tname (ts[i := addPoints n (ts ! i)] ! j) = tname (ts ! j)"
  by (cases "i < length ts"; cases "i = j") (simp_all add: addPoints_def list_update_beyond)

lemma terrors_addPoints_nth [simp]:
  "terrors (ts[i := addPoints n (ts ! i)] ! j) = terrors (ts ! j)"
  by (cases "i < length ts"; cases "i = j") (simp_all add: addPoints_def list_update_beyond)

lemma twoTeams_names: "map tname (teams g') = map tname (teams g) \<Longrightarrow> twoTeams g' = twoTeams g"
  by (simp add: twoTeams_def) (metis length_map)

lemma recordError_default_step:
  assumes "twoTeams g" "i < (2::nat)" "currentTeam g = tname (teams g ! i)"
    and "status (theRound g) = DEFAULT"
  shows "twoTeams (recordError g)"
    and "tname (teams (recordError g) ! j) = tname (teams g ! j)"
    and "tpoints (teams (recordError g) ! j) = tpoints (teams g ! j)"
    and "terrors (teams (recordError g) ! i) = terrors (teams g ! i) + 1"
    and "rpoints (theRound (recordError g)) = rpoints (theRound g)"
    and "roundCount (recordError g) = roundCount g"
    and "pendingNextRound (recordError g) = pendingNextRound g"
    and "status (theRound (recordError g)) = (if terrors (teams g ! i) = 2 then STOLEN else DEFAULT)"
    and "currentTeam (recordError g) =
           (if terrors (teams g ! i) = 2 then tname (teams g ! (1 - i)) else currentTeam g)"
proof -
  have i: "i < length (teams g)" using assms(1,2) by (simp add: twoTeams_def)
  note r = twoTeams_recordError_default[OF assms]
  show "twoTeams (recordError g)"
    using assms(1) by (subst twoTeams_names[of _ g]) (simp_all add: r)
  show "tname (teams (recordError g) ! j) = tname (teams g ! j)" by (simp add: r)
  show "tpoints (teams (recordError g) ! j) = tpoints (teams g ! j)" by (simp add: r)
  show "terrors (teams (recordError g) ! i) = terrors (teams g ! i) + 1"
    using i by (simp add: r addError_def)
  show "rpoints (theRound (recordError g)) = rpoints (theRound g)" by (simp add: r)
  show "roundCount (recordError g) = roundCount g" by (simp add: r)
  show "pendingNextRound (recordError g) = pendingNextRound g" by (simp add: r)
  show "status (theRound (recordError g)) = (if terrors (teams g ! i) = 2 then STOLEN else DEFAULT)"
    using assms(4) by (simp add: r)
  show "currentTeam (recordError g) =
           (if terrors (teams g ! i) = 2 then tname (teams g ! (1 - i)) else currentTeam g)"
    by (simp add: r)
qed

lemma recordError_stolen_step:
  assumes "twoTeams g" "i < (2::nat)" "currentTeam g = tname (teams g ! i)"
    and "status (theRound g) = STOLEN"
  shows "terrors (teams (recordError g) ! i) = terrors (teams g ! i) + 1"
    and "tpoints (teams (recordError g) ! (1 - i))
           = tpoints (teams g ! (1 - i)) + rpoints (theRound g) * multiplier (roundCount g)"
    and "theRound (recordError g) = theRound g"
    and "tpoints (teams g ! (1 - i)) + rpoints (theRound g) * multiplier (roundCount g) < 400 \<Longrightarrow>
           pendingNextRound (recordError g) \<and> currentTeam (recordError g) = currentTeam g"
    and "tpoints (teams g ! (1 - i)) + rpoints (theRound g) * multiplier (roundCount g) \<ge> 400 \<Longrightarrow>
           pendingNextRound (recordError g) = pendingNextRound g \<and>
           currentTeam (recordError g) = tname (teams g ! (1 - i))"
proof -
  have "1 - i \<noteq> i" using assms(2) by arith
  then have i: "i < length (teams g)" "1 - i < length (teams g)" "1 - i \<noteq> i"
    using assms(1,2) by (simp_all add: twoTeams_def)
  note r = twoTeams_recordError_stolen[OF assms]
  show "terrors (teams (recordError g) ! i) = terrors (teams g ! i) + 1"
    using i by (simp add: r Let_def addError_def)
  show "tpoints (teams (recordError g) ! (1 - i))
           = tpoints (teams g ! (1 - i)) + rpoints (theRound g) * multiplier (roundCount g)"
    using i by (simp add: r Let_def addPoints_def)
  show "theRound (recordError g) = theRound g" by (simp add: r Let_def)
  show "pendingNextRound (recordError g) \<and> currentTeam (recordError g) = currentTeam g"
    if "tpoints (teams g ! (1 - i)) + rpoints (theRound g) * multiplier (roundCount g) < 400"
    using that by (simp add: r Let_def)
  show "pendingNextRound (recordError g) = pendingNextRound g \<and>
        currentTeam (recordError g) = tname (teams g ! (1 - i))"
    if "tpoints (teams g ! (1 - i)) + rpoints (theRound g) * multiplier (roundCount g) \<ge> 400"
    using that by (simp add: r Let_def)
qed


lemmas run_defs =
  recordError_def addErrorForSelectedTeam_def revealAnswerByNumber_def

text \<open>
  Claim C5, as stated, fails. In the first game blue errs three times (the status
  becomes STOLEN and red becomes active) and red errs once: the steal resolves with
  \<open>pendingNextRound\<close> set, but the active team at the end is red, not blue.
\<close>

theorem failed_steal_counterexample:
  "currentTeam exGame = ''blue'' \<and> status (theRound exGame) = DEFAULT \<and>
   status (theRound exThreeErrors) = STOLEN \<and> currentTeam exThreeErrors = ''red'' \<and>
   map terrors (teams exThreeErrors) = [3, 0] \<and>
   pendingNextRound exFailedSteal \<and> map terrors (teams exFailedSteal) = [3, 1] \<and>
   currentTeam exFailedSteal = ''red'' \<and> currentTeam exFailedSteal \<noteq> ''blue''"
  by (simp add: ex_defs run_defs op_defs)

text \<open>
  Claim C5, amended. In a game of two teams, if the active team errs three times from
  zero errors while the status is DEFAULT, the status becomes STOLEN and the opponent
  becomes active. If the opponent then errs once, the original team is credited the
  round's points times the multiplier. When its total stays below 400 the steal
  resolves with \<open>pendingNextRound\<close> set and the opponent (the team that erred last) is
  left active; when its total reaches 400 the original team is left active and
  \<open>pendingNextRound\<close> keeps its value.
\<close>

theorem failed_steal:
  assumes "twoTeams g" "i < (2::nat)" "currentTeam g = tname (teams g ! i)"
    and "status (theRound g) = DEFAULT" "terrors (teams g ! i) = 0"
  shows "status (theRound (recordError (recordError (recordError g)))) = STOLEN \<and>
         currentTeam (recordError (recordError (recordError g))) = tname (teams g ! (1 - i)) \<and>
         tpoints (teams (recordError (recordError (recordError (recordError g)))) ! i)
           = tpoints (teams g ! i) + rpoints (theRound g) * multiplier (roundCount g) \<and>
         (tpoints (teams g ! i) + rpoints (theRound g) * multiplier (roundCount g) < 400 \<longrightarrow>
            pendingNextRound (recordError (recordError (recordError (recordError g)))) \<and>
            currentTeam (recordError (recordError (recordError (recordError g))))
              = tname (teams g ! (1 - i))) \<and>
         (tpoints (teams g ! i) + rpoints (theRound g) * multiplier (roundCount g) \<ge> 400 \<longrightarrow>
            pendingNextRound (recordError (recordError (recordError (recordError g))))
              = pendingNextRound g \<and>
            currentTeam (recordError (recordError (recordError (recordError g))))
              = tname (teams g ! i))"
proof -
  let ?g1 = "recordError g"
  let ?g2 = "recordError ?g1"
  let ?g3 = "recordError ?g2"
  let ?g4 = "recordError ?g3"
  let ?award = "rpoints (theRound g) * multiplier (roundCount g)"
  note s1 = recordError_default_step[OF assms(1-4)]
  have c1: "currentTeam ?g1 = tname (teams ?g1 ! i)" "status (theRound ?g1) = DEFAULT"
    "terrors (teams ?g1 ! i) = 1"
    using s1(2,4,8,9) assms(3,5) by simp_all
  note s2 = recordError_default_step[OF s1(1) assms(2) c1(1,2)]
  have c2: "currentTeam ?g2 = tname (teams ?g2 ! i)" "status (theRound ?g2) = DEFAULT"
    "terrors (teams ?g2 ! i) = 2"
    using s2(2,4,8,9) c1 by simp_all
  note s3 = recordError_default_step[OF s2(1) assms(2) c2(1,2)]
  have i': "1 - i < (2::nat)" "1 - (1 - i) = i" using assms(2) by arith+
  have c3: "currentTeam ?g3 = tname (teams ?g3 ! (1 - i))" "status (theRound ?g3) = STOLEN"
    using s3(2,8,9) c2 by simp_all
  have n3: "tname (teams ?g3 ! j) = tname (teams g ! j)" for j
    by (simp add: s1(2) s2(2) s3(2))
  have p3: "tpoints (teams ?g3 ! i) + rpoints (theRound ?g3) * multiplier (roundCount ?g3)
              = tpoints (teams g ! i) + ?award"
    by (simp add: s1(3,5,6) s2(3,5,6) s3(3,5,6))
  have q3: "pendingNextRound ?g3 = pendingNextRound g" by (simp add: s1(7) s2(7) s3(7))
  note s4 = recordError_stolen_step[OF s3(1) i'(1) c3, unfolded i'(2)]
  have a: "status (theRound ?g3) = STOLEN \<and> currentTeam ?g3 = tname (teams g ! (1 - i))"
    using c3 n3 by simp
  have b: "tpoints (teams ?g4 ! i) = tpoints (teams g ! i) + ?award"
    using s4(2) p3 by simp
  have c: "pendingNextRound ?g4 \<and> currentTeam ?g4 = tname (teams g ! (1 - i))"
    if "tpoints (teams g ! i) + ?award < 400"
    using s4(4) that p3 a by simp
  have d: "pendingNextRound ?g4 = pendingNextRound g \<and> currentTeam ?g4 = tname (teams g ! i)"
    if "tpoints (teams g ! i) + ?award \<ge> 400"
    using s4(5) that p3 q3 n3 by simp
  show ?thesis using a b c d by blast
qed

theorem failed_steal_witness:
  "twoTeams exGame \<and> currentTeam exGame = tname (teams exGame ! 0) \<and>
   status (theRound exGame) = DEFAULT \<and> terrors (teams exGame ! 0) = 0 \<and>
   status (theRound exThreeErrors) = STOLEN \<and> currentTeam exThreeErrors = ''red'' \<and>
   pendingNextRound exFailedSteal \<and> currentTeam exFailedSteal = ''red'' \<and>
   tpoints (teams exFailedSteal ! 0) = 0"
proof -
  have h: "twoTeams exGame" "(0::nat) < 2" "currentTeam exGame = tname (teams exGame ! 0)"
    "status (theRound exGame) = DEFAULT" "terrors (teams exGame ! 0) = 0"
    by (simp_all add: twoTeams_def ex_defs)
  have v: "tname (teams exGame ! Suc 0) = ''red''" "tpoints (teams exGame ! 0) = 0"
    "rpoints (theRound exGame) = 0"
    by (simp_all add: ex_defs)
  show ?thesis
    using h failed_steal[OF h]
    by (simp add: v exTwoErrors_def exThreeErrors_def exFailedSteal_def)
qed

lemma setBoardError_terrors:
  assumes "i < length (teams g)"
  shows "terrors (teams (setBoardError i g) ! i) = terrors (teams g ! i) + 1"
  using assms
  by (simp add: setBoardError_def Let_def addError_def split: option.splits)

lemma setBoardError_default_other:
  assumes "status (theRound g) = DEFAULT" "i < length (teams g)" "terrors (teams g ! i) \<noteq> 2"
  shows "status (theRound (setBoardError i g)) = DEFAULT"
    and "currentTeam (setBoardError i g) = currentTeam g"
  using assms by (simp_all add: setBoardError_default)

lemma setBoardError_default_third:
  assumes "status (theRound g) = DEFAULT" "i < length (teams g)" "terrors (teams g ! i) = 2"
  shows "status (theRound (setBoardError i g)) = STOLEN"
    and "currentTeam (setBoardError i g) = currentTeam (switchCurrentTeam g)"
    and "pendingNextRound (setBoardError i g) = pendingNextRound g"
  using assms by (simp_all add: setBoardError_default)

lemma setBoardError_stolen_pending:
  assumes "status (theRound g) = STOLEN" "getCurrentTeam (switchCurrentTeam g) = Some k"
  shows "pendingNextRound (setBoardError i g) =
           (if tpoints (teams g ! k) + rpoints (theRound g) * multiplier (roundCount g) \<ge> 400
            then pendingNextRound g else True)"
  by (simp add: setBoardError_stolen[OF assms] Let_def)

text \<open>
  Claim C3, as stated, fails in its last part. In \<open>exStealGame\<close> the status is STOLEN
  and blue is active; revealing answer 2 takes blue to 500 points, the game is won and
  \<open>pendingNextRound\<close> is still false at the end of the operation. It is also still
  false after a reveal made under STOLEN while no team is selected.
\<close>

theorem steal_transition_counterexample:
  "status (theRound exStealGame) = STOLEN \<and> \<not> pendingNextRound exStealGame \<and>
   fst (revealAnswerByNumber 2 exStealGame) \<and>
   revealed (theRound (snd (revealAnswerByNumber 2 exStealGame))) = {|2, 1|} \<and>
   map tpoints (teams (snd (revealAnswerByNumber 2 exStealGame))) = [500, 100] \<and>
   \<not> pendingNextRound (snd (revealAnswerByNumber 2 exStealGame)) \<and>
   status (theRound exThreeErrors) = STOLEN \<and>
   fst (revealAnswerByNumber 1 (setCurrentTeam [] False exThreeErrors)) \<and>
   \<not> pendingNextRound (snd (revealAnswerByNumber 1 (setCurrentTeam [] False exThreeErrors)))"
  by (simp add: ex_defs run_defs op_defs)

text \<open>
  Claim C3, amended. An error recorded for a team while the status is DEFAULT that
  takes its error count to exactly 3 flips the status to STOLEN and makes the team
  found by \<open>switchCurrentTeam\<close> active (with two teams: the opponent), leaving
  \<open>pendingNextRound\<close> as it was; any other error under DEFAULT changes neither the
  status nor the active team. Once STOLEN, the status stays STOLEN under every error
  and reveal of the round, so the flip cannot happen a second time. Under STOLEN, an
  error, and an awarding reveal of a rank not yet revealed, end with
  \<open>pendingNextRound\<close> set unless the award takes the credited team to 400 points or
  more, in which case \<open>pendingNextRound\<close> keeps its value.
\<close>

theorem steal_transition:
  "(status (theRound g) = DEFAULT \<and> getCurrentTeam g = Some i \<and> terrors (teams g ! i) = 2 \<longrightarrow>
      terrors (teams (setBoardError i g) ! i) = 3 \<and>
      status (theRound (setBoardError i g)) = STOLEN \<and>
      currentTeam (setBoardError i g) = currentTeam (switchCurrentTeam g) \<and>
      pendingNextRound (setBoardError i g) = pendingNextRound g) \<and>
   (twoTeams g \<and> j < (2::nat) \<and> currentTeam g = tname (teams g ! j) \<longrightarrow>
      currentTeam (switchCurrentTeam g) = tname (teams g ! (1 - j))) \<and>
   (status (theRound g) = DEFAULT \<and> getCurrentTeam g = Some i \<and> terrors (teams g ! i) \<noteq> 2 \<longrightarrow>
      status (theRound (setBoardError i g)) = DEFAULT \<and>
      currentTeam (setBoardError i g) = currentTeam g) \<and>
   (status (theRound g) = STOLEN \<longrightarrow>
      status (theRound (setBoardError i g)) = STOLEN \<and>
      status (theRound (setBoardAnswer x g)) = STOLEN \<and>
      status (revealAnswerOnly x (theRound g)) = STOLEN) \<and>
   (status (theRound g) = STOLEN \<and> getCurrentTeam (switchCurrentTeam g) = Some k \<longrightarrow>
      pendingNextRound (setBoardError i g) =
        (if tpoints (teams g ! k) + rpoints (theRound g) * multiplier (roundCount g) \<ge> 400
         then pendingNextRound g else True)) \<and>
   (status (theRound g) = STOLEN \<and> getCurrentTeam g = Some i \<and>
    \<not> lp x |\<in>| revealed (theRound g) \<longrightarrow>
      pendingNextRound (setBoardAnswer x g) =
        (if tpoints (teams g ! i)
              + (rpoints (theRound g) + apoints x) * multiplier (roundCount g) \<ge> 400
         then pendingNextRound g else True))"
proof -
  have a: "terrors (teams (setBoardError i g) ! i) = 3 \<and>
      status (theRound (setBoardError i g)) = STOLEN \<and>
      currentTeam (setBoardError i g) = currentTeam (switchCurrentTeam g) \<and>
      pendingNextRound (setBoardError i g) = pendingNextRound g"
    if "status (theRound g) = DEFAULT" "getCurrentTeam g = Some i" "terrors (teams g ! i) = 2"
    using setBoardError_default_third[OF that(1) getCurrentTeam_lt[OF that(2)] that(3)]
      setBoardError_terrors[OF getCurrentTeam_lt[OF that(2)]] that(3)
    by simp
  have b: "currentTeam (switchCurrentTeam g) = tname (teams g ! (1 - j))"
    if "twoTeams g" "j < (2::nat)" "currentTeam g = tname (teams g ! j)"
    by (simp add: twoTeams_switchCurrentTeam[OF that])
  have c: "status (theRound (setBoardError i g)) = DEFAULT \<and>
      currentTeam (setBoardError i g) = currentTeam g"
    if "status (theRound g) = DEFAULT" "getCurrentTeam g = Some i" "terrors (teams g ! i) \<noteq> 2"
    using setBoardError_default_other[OF that(1) getCurrentTeam_lt[OF that(2)] that(3)]
    by simp
  have d: "status (theRound (setBoardError i g)) = STOLEN \<and>
      status (theRound (setBoardAnswer x g)) = STOLEN \<and>
      status (revealAnswerOnly x (theRound g)) = STOLEN"
    if "status (theRound g) = STOLEN"
    using that by (simp add: setBoardError_keeps_stolen)
  show ?thesis
    using a b c d setBoardError_stolen_pending[of g k i]
      setBoardAnswer_stolen_pending[of g i x]
    by blast
qed


theorem steal_transition_witness:
  "status (theRound exTwoErrors) = DEFAULT \<and> getCurrentTeam exTwoErrors = Some 0 \<and>
   terrors (teams exTwoErrors ! 0) = 2 \<and>
   status (theRound (setBoardError 0 exTwoErrors)) = STOLEN \<and>
   currentTeam exTwoErrors = ''blue'' \<and> currentTeam (setBoardError 0 exTwoErrors) = ''red'' \<and>
   twoTeams exTwoErrors \<and>
   status (theRound exGame) = DEFAULT \<and> getCurrentTeam exGame = Some 0 \<and>
   terrors (teams exGame ! 0) \<noteq> 2 \<and>
   status (theRound (setBoardError 0 exGame)) = DEFAULT \<and>
   currentTeam (setBoardError 0 exGame) = ''blue'' \<and>
   status (theRound exStealGame) = STOLEN \<and>
   getCurrentTeam exStealGame = Some 0 \<and>
   getCurrentTeam (switchCurrentTeam exStealGame) = Some 1 \<and>
   \<not> lp \<lparr>ans = [112, 105, 101, 115], lp = 2, apoints = 30\<rparr>
       |\<in>| revealed (theRound exStealGame) \<and>
   status (theRound (setBoardError 0 exStealGame)) = STOLEN \<and>
   pendingNextRound (setBoardError 0 exStealGame) \<and>
   \<not> pendingNextRound
       (setBoardAnswer \<lparr>ans = [112, 105, 101, 115], lp = 2, apoints = 30\<rparr> exStealGame)"
proof -
  have h1: "status (theRound exTwoErrors) = DEFAULT" "getCurrentTeam exTwoErrors = Some 0"
    "terrors (teams exTwoErrors ! 0) = 2" "twoTeams exTwoErrors"
    "currentTeam exTwoErrors = tname (teams exTwoErrors ! 0)"
    "tname (teams exTwoErrors ! Suc 0) = ''red''" "currentTeam exTwoErrors = ''blue''"
    by (simp_all add: ex_defs run_defs op_defs twoTeams_def)
  have h2: "status (theRound exGame) = DEFAULT" "getCurrentTeam exGame = Some 0"
    "terrors (teams exGame ! 0) \<noteq> 2" "currentTeam exGame = ''blue''"
    by (simp_all add: ex_defs getCurrentTeam_def)
  have h3: "status (theRound exStealGame) = STOLEN" "getCurrentTeam exStealGame = Some 0"
    "getCurrentTeam (switchCurrentTeam exStealGame) = Some 1"
    "\<not> lp \<lparr>ans = [112, 105, 101, 115], lp = 2, apoints = 30\<rparr>
         |\<in>| revealed (theRound exStealGame)"
    "\<not> pendingNextRound exStealGame"
    "tpoints (teams exStealGame ! 0) = 290" "tpoints (teams exStealGame ! 1) = 100"
    "rpoints (theRound exStealGame) = 40" "roundCount exStealGame = 5"
    by (simp_all add: ex_defs getCurrentTeam_def switchCurrentTeam_def setCurrentTeam_def)
  show ?thesis
    using h1 h2 h3
      steal_transition[of exTwoErrors 0 0]
      steal_transition[of exGame 0]
      steal_transition[of exStealGame 0 _ "\<lparr>ans = [112, 105, 101, 115], lp = 2, apoints = 30\<rparr>" 1]
    by (simp add: multiplier_def)
qed


subsection \<open>After the steal is resolved\<close>

lemma reachable_recordError: "reachable g \<Longrightarrow> reachable (recordError g)"
  unfolding recordError_def by (rule reachable.erred)

text \<open>
  Claim C4 on the code. The claim is what the code documents (STOLEN gives the
  opposing team one chance, and a set \<open>pendingNextRound\<close> means that a new round
  starts next), but neither \<open>Round\<close> nor \<open>Game\<close> rejects an event once the steal is
  resolved. In \<open>exStealSession\<close>, a game of the session in which the steal has been
  resolved by an error of red (blue credited the round's 40 points,
  \<open>pendingNextRound\<close> set), one more error of red credits blue the same 40 points a
  second time, and a reveal of answer 2 gives red the round. In \<open>exResolved\<close>, the
  round-5 steal resolved by an error of blue, one more error credits red another 120
  points and a reveal of answer 2 credits blue 210 points.
\<close>

theorem events_after_resolved_steal_are_processed:
  "reachable exStealSession \<and>
   status (theRound exStealSession) = STOLEN \<and> pendingNextRound exStealSession \<and>
   currentTeam exStealSession = ''red'' \<and>
   map tpoints (teams exStealSession) = [40, 0] \<and>
   map terrors (teams exStealSession) = [3, 1] \<and>
   map tpoints (teams (recordError exStealSession)) = [80, 0] \<and>
   map terrors (teams (recordError exStealSession)) = [3, 2] \<and>
   teams (recordError exStealSession) \<noteq> teams exStealSession \<and>
   fst (revealAnswerByNumber 2 exStealSession) \<and>
   rpoints (theRound (snd (revealAnswerByNumber 2 exStealSession))) = 70 \<and>
   map tpoints (teams (snd (revealAnswerByNumber 2 exStealSession))) = [40, 70] \<and>
   theRound (snd (revealAnswerByNumber 2 exStealSession)) \<noteq> theRound exStealSession \<and>
   status (theRound exResolved) = STOLEN \<and> pendingNextRound exResolved \<and>
   currentTeam exResolved = ''blue'' \<and>
   map tpoints (teams exResolved) = [290, 220] \<and> map terrors (teams exResolved) = [1, 3] \<and>
   map tpoints (teams (recordError exResolved)) = [290, 340] \<and>
   map terrors (teams (recordError exResolved)) = [2, 3] \<and>
   teams (recordError exResolved) \<noteq> teams exResolved \<and>
   fst (revealAnswerByNumber 2 exResolved) \<and>
   rpoints (theRound (snd (revealAnswerByNumber 2 exResolved))) = 70 \<and>
   map tpoints (teams (snd (revealAnswerByNumber 2 exResolved))) = [500, 220] \<and>
   theRound (snd (revealAnswerByNumber 2 exResolved)) \<noteq> theRound exResolved"
proof -
  have "reachable (snd (revealAnswerByNumber 1 exGame))"
    by (intro reachable.revealedByNumber reachable_exGame)
  then have r: "reachable exStealSession"
    unfolding exStealSession_def by (intro reachable_recordError)
  have s: "status (theRound exStealSession) = STOLEN" "pendingNextRound exStealSession"
    "currentTeam exStealSession = ''red''"
    "map tpoints (teams exStealSession) = [40, 0]"
    "map terrors (teams exStealSession) = [3, 1]"
    "map tpoints (teams (recordError exStealSession)) = [80, 0]"
    "map terrors (teams (recordError exStealSession)) = [3, 2]"
    "fst (revealAnswerByNumber 2 exStealSession)"
    "rpoints (theRound (snd (revealAnswerByNumber 2 exStealSession))) = 70"
    "map tpoints (teams (snd (revealAnswerByNumber 2 exStealSession))) = [40, 70]"
    "rpoints (theRound exStealSession) = 40"
    by (simp_all add: exStealSession_def ex_defs run_defs op_defs)
  have e: "status (theRound exResolved) = STOLEN" "pendingNextRound exResolved"
    "currentTeam exResolved = ''blue''"
    "map tpoints (teams exResolved) = [290, 220]" "map terrors (teams exResolved) = [1, 3]"
    "map tpoints (teams (recordError exResolved)) = [290, 340]"
    "map terrors (teams (recordError exResolved)) = [2, 3]"
    "fst (revealAnswerByNumber 2 exResolved)"
    "rpoints (theRound (snd (revealAnswerByNumber 2 exResolved))) = 70"
    "map tpoints (teams (snd (revealAnswerByNumber 2 exResolved))) = [500, 220]"
    "rpoints (theRound exResolved) = 40"
    by (simp_all add: ex_defs run_defs op_defs)
  have n: "teams (recordError exStealSession) \<noteq> teams exStealSession"
    "theRound (snd (revealAnswerByNumber 2 exStealSession)) \<noteq> theRound exStealSession"
    "teams (recordError exResolved) \<noteq> teams exResolved"
    "theRound (snd (revealAnswerByNumber 2 exResolved)) \<noteq> theRound exResolved"
    using s e by auto
  show ?thesis using r s e n by simp
qed

subsection \<open>Matching a guess\<close>

text \<open>
  Claim C6 on the code. The stored answer is lower-cased but not stripped of
  diacritics, and the guess is stripped of diacritics but not lower-cased. The guess
  "Kot" differs from the stored answer "kot" only by case and is not matched: with blue
  active it is recorded as an error. In round 2 the stored answer (code points 380,
  243, 322, 116, 121) is matched neither by the identical guess nor by its folded form
  "zolty".
\<close>

theorem guess_matching_is_one_sided:
  "spec_sameUpToCaseAndDiacritics [75, 111, 116] [107, 111, 116] \<and>
   resolvePlayerAnswer [107, 111, 116] exGame = Some \<lparr>ans = [107, 111, 116], lp = 1, apoints = 40\<rparr> \<and>
   resolvePlayerAnswer [75, 111, 116] exGame = None \<and>
   map terrors (teams (handlePlayerAnswer [75, 111, 116] exGame)) = [1, 0] \<and>
   answers (question (theRound exSecondRound))
     = [\<lparr>ans = [380, 243, 322, 116, 121], lp = 1, apoints = 60\<rparr>] \<and>
   spec_sameUpToCaseAndDiacritics [380, 243, 322, 116, 121] [380, 243, 322, 116, 121] \<and>
   resolvePlayerAnswer [380, 243, 322, 116, 121] exSecondRound = None \<and>
   removeDiacritics [380, 243, 322, 116, 121] = [122, 111, 108, 116, 121] \<and>
   resolvePlayerAnswer [122, 111, 108, 116, 121] exSecondRound = None"
proof -
  have q: "answers (question (theRound exSecondRound))
     = [\<lparr>ans = [380, 243, 322, 116, 121], lp = 1, apoints = 60\<rparr>]"
    by (simp add: exSecondRound_def exActions_def ex_defs game_defs op_defs match_defs)
  have a: "resolvePlayerAnswer [380, 243, 322, 116, 121] exSecondRound = None"
    "resolvePlayerAnswer [122, 111, 108, 116, 121] exSecondRound = None"
    unfolding resolvePlayerAnswer_def q
    by (simp_all add: toLowerCase_def toLowerCaseChar_def removeDiacritics_def
        normalizeNFKD_def nfkdChar_def keptChar_def isWordChar_def isSpaceChar_def)
  have b: "spec_sameUpToCaseAndDiacritics [75, 111, 116] [107, 111, 116]"
    "removeDiacritics [380, 243, 322, 116, 121] = [122, 111, 108, 116, 121]"
    by (simp_all add: spec_sameUpToCaseAndDiacritics_def toLowerCase_def toLowerCaseChar_def
        removeDiacritics_def normalizeNFKD_def nfkdChar_def keptChar_def isWordChar_def
        isSpaceChar_def)
  have c: "resolvePlayerAnswer [107, 111, 116] exGame
             = Some \<lparr>ans = [107, 111, 116], lp = 1, apoints = 40\<rparr>"
    "resolvePlayerAnswer [75, 111, 116] exGame = None"
    "map terrors (teams (handlePlayerAnswer [75, 111, 116] exGame)) = [1, 0]"
    by (simp_all add: ex_defs game_defs op_defs match_defs)
  show ?thesis using q a b c by (simp add: spec_sameUpToCaseAndDiacritics_def)
qed

subsection \<open>Parsing the dataset\<close>

lemma mapThrowing_total:
  "(\<And>x. x \<in> set xs \<Longrightarrow> f x = Inr (h x)) \<Longrightarrow> mapThrowing f xs = Inr (map h xs)"
  by (induction xs) simp_all

lemma newAnswer_filter_truthy:
  "mapThrowing newAnswer (filter truthy rs) = Inr (spec_validAnswers rs)"
proof (induction rs)
  case Nil
  then show ?case by simp
next
  case (Cons r rs)
  then show ?case by (cases r) simp_all
qed

lemma newQuestion_no_null: "newQuestion n (map Some xs) = \<lparr>qname = n, answers = xs\<rparr>"
  by (simp add: newQuestion_def filter_map comp_def)

lemma parseQuestion_spec: "parseQuestion entry = Inr (spec_question entry)"
  by (simp add: parseQuestion_def newAnswer_filter_truthy newQuestion_no_null spec_question_def)

lemma parseQuestions_spec: "parseQuestions raw = Inr (map spec_question raw)"
  unfolding parseQuestions_def by (rule mapThrowing_total) (rule parseQuestion_spec)

lemma shuffleLoop_mset:
  assumes "\<forall>i. pick i \<le> i"
  shows "k < length xs \<or> k = 0 \<Longrightarrow> mset (shuffleLoop pick k xs) = mset xs"
proof (induction k arbitrary: xs)
  case 0
  then show ?case by simp
next
  case (Suc k)
  then have k: "Suc k < length xs" by simp
  have p: "pick (Suc k) < length xs" using assms k by (meson le_less_trans)
  let ?ys = "xs[Suc k := xs ! pick (Suc k), pick (Suc k) := xs ! Suc k]"
  have "mset ?ys = mset xs" using k p by (simp add: mset_swap)
  moreover have "mset (shuffleLoop pick k ?ys) = mset ?ys" using k by (intro Suc.IH) simp
  ultimately show ?case by simp
qed

lemma shuffleQuestions_mset:
  assumes "\<forall>i. pick i \<le> i"
  shows "mset (shuffleQuestions pick qs) = mset qs"
  unfolding shuffleQuestions_def
  by (rule shuffleLoop_mset[OF assms]) (cases qs, simp_all)


lemma newQuestion_answers: "set (answers (newQuestion n as)) = {a. Some a \<in> set as}"
  by (force simp: newQuestion_def)

text \<open>
  Claim C10. For every raw dataset the construction of the store succeeds: the
  \<open>Answer\<close> constructor is only ever applied to entries that passed the filter. Each
  stored question holds exactly the entries of its raw list that are not falsy, as
  \<open>answer\<close> records and in their order; the store holds these questions in dataset
  order, or a permutation of them when it shuffles (every draw \<open>pick i\<close> of the
  shuffle lies in \<open>0..i\<close>). The \<open>Question\<close> constructor itself keeps exactly the
  entries of its argument that are not null.
\<close>

theorem store_questions_hold_valid_answers:
  assumes "\<forall>i. pick i \<le> i"
  shows "parseQuestions raw = Inr (map spec_question raw) \<and>
         (\<exists>st. newQuestionStore pick raw rnd = Inr st \<and>
               mset (questions st) = mset (map spec_question raw) \<and>
               (\<not> rnd \<longrightarrow> questions st = map spec_question raw) \<and>
               (\<forall>q \<in> set (questions st).
                  \<exists>e \<in> set raw. qname q = fst e \<and> answers q = spec_validAnswers (snd e))) \<and>
         set (answers (newQuestion n as)) = {a. Some a \<in> set as}"
proof -
  let ?qs = "map spec_question raw"
  let ?st = "\<lparr>random = rnd, questions = (if rnd then shuffleQuestions pick ?qs else ?qs),
              currentQuestionIndex = 0\<rparr>"
  have st: "newQuestionStore pick raw rnd = Inr ?st"
    by (simp add: newQuestionStore_def parseQuestions_spec)
  have m: "mset (questions ?st) = mset ?qs"
    by (simp add: shuffleQuestions_mset[OF assms])
  then have "set (questions ?st) = set ?qs" by (rule mset_eq_setD)
  then have v: "\<forall>q \<in> set (questions ?st).
                  \<exists>e \<in> set raw. qname q = fst e \<and> answers q = spec_validAnswers (snd e)"
    by (auto simp: spec_question_def)
  have "\<not> rnd \<longrightarrow> questions ?st = ?qs" by simp
  with st m v show ?thesis
    using parseQuestions_spec newQuestion_answers by blast
qed

theorem store_questions_hold_valid_answers_witness:
  "(\<forall>i. (\<lambda>i::nat. 0::nat) i \<le> i) \<and>
   parseQuestions exRaw = Inr [exQuestion, exQuestion2] \<and>
   newQuestionStore (\<lambda>i. 0) exRaw False = Inr exStore \<and>
   answers (questions exStore ! 0) = spec_validAnswers (snd (exRaw ! 0)) \<and>
   length (snd (exRaw ! 0)) = 3 \<and> length (answers (questions exStore ! 0)) = 2"
proof -
  have h: "\<forall>i. (\<lambda>i::nat. 0::nat) i \<le> i" by simp
  have s: "map spec_question exRaw = [exQuestion, exQuestion2]"
    by (simp add: exRaw_def spec_question_def ex_defs)
  have n: "newQuestionStore (\<lambda>i. 0) exRaw False = Inr exStore"
    by (simp add: newQuestionStore_def parseQuestions_spec s exStore_def)
  show ?thesis
    using h store_questions_hold_valid_answers[OF h, of exRaw False] s n
    by (simp add: exRaw_def ex_defs)
qed

subsection \<open>Well-formedness along a session\<close>

lemma jsrem_normalised:
  assumes "0 < n"
  shows "0 \<le> jsrem (jsrem x n + n) n" and "jsrem (jsrem x n + n) n < n"
proof -
  have "(- x) mod n \<le> n" using pos_mod_bound[OF assms, of "- x"] by (rule less_imp_le)
  moreover have "0 \<le> x mod n" using assms by simp
  ultimately have a: "0 \<le> jsrem x n + n"
    using assms by (cases "x < 0") (simp_all add: jsrem_def abs_of_pos)
  then show "0 \<le> jsrem (jsrem x n + n) n" "jsrem (jsrem x n + n) n < n"
    using assms by (simp_all add: jsrem_def[of "jsrem x n + n"] abs_of_pos)
qed

lemma set_update_nonneg:
  assumes "\<forall>t \<in> set ts. 0 \<le> tpoints t \<and> 0 \<le> terrors t" "0 \<le> tpoints x \<and> 0 \<le> terrors x"
  shows "\<forall>t \<in> set (ts[i := x]). 0 \<le> tpoints t \<and> 0 \<le> terrors t"
  using assms set_update_subset_insert[of ts i x] by auto

lemma wellFormed_cong:
  assumes "map tname (teams g') = map tname (teams g)"
    and "questionsStore g' = questionsStore g"
    and "\<forall>t \<in> set (teams g'). 0 \<le> tpoints t \<and> 0 \<le> terrors t"
  shows "wellFormed g \<Longrightarrow> wellFormed g'"
  using assms by (simp add: wellFormed_def)

lemma sessionInv_switchCurrentTeam [simp]: "sessionInv (switchCurrentTeam g) = sessionInv g"
  by (simp add: sessionInv_def wellFormed_def)

lemma sessionInv_pending [simp]: "sessionInv (g\<lparr>pendingNextRound := b\<rparr>) = sessionInv g"
  by (simp add: sessionInv_def wellFormed_def)

lemma sessionInv_currentTeam [simp]: "sessionInv (g\<lparr>currentTeam := c\<rparr>) = sessionInv g"
  by (simp add: sessionInv_def wellFormed_def)

lemma sessionInv_push: "sessionInv g \<Longrightarrow> sessionInv (pushUndoSnapshot g)"
  by (simp add: sessionInv_def wellFormed_def takeSnapshot_def)

lemma sessionInv_addPoints:
  assumes "sessionInv g" "0 \<le> n" "j < length (teams g)"
  shows "sessionInv (g\<lparr>teams := (teams g)[j := addPoints n (teams g ! j)]\<rparr>)"
proof -
  have "0 \<le> tpoints (addPoints n (teams g ! j)) \<and> 0 \<le> terrors (addPoints n (teams g ! j))"
    using assms by (simp add: sessionInv_def wellFormed_def addPoints_def)
  then have "\<forall>t \<in> set ((teams g)[j := addPoints n (teams g ! j)]). 0 \<le> tpoints t \<and> 0 \<le> terrors t"
    using assms(1) by (intro set_update_nonneg) (simp_all add: sessionInv_def wellFormed_def)
  then show ?thesis using assms(1) by (simp add: sessionInv_def wellFormed_def)
qed

lemma sessionInv_addError:
  assumes "sessionInv g" "i < length (teams g)"
  shows "sessionInv (g\<lparr>teams := (teams g)[i := addError (teams g ! i)]\<rparr>)"
proof -
  have "0 \<le> tpoints (addError (teams g ! i)) \<and> 0 \<le> terrors (addError (teams g ! i))"
    using assms by (simp add: sessionInv_def wellFormed_def addError_def)
  then have "\<forall>t \<in> set ((teams g)[i := addError (teams g ! i)]). 0 \<le> tpoints t \<and> 0 \<le> terrors t"
    using assms(1) by (intro set_update_nonneg) (simp_all add: sessionInv_def wellFormed_def)
  then show ?thesis using assms(1) by (simp add: sessionInv_def wellFormed_def)
qed

lemma award_nonneg: "0 \<le> p \<Longrightarrow> 0 \<le> p * multiplier rc"
  by (simp add: multiplier_def)

lemma sessionInv_finishRound:
  assumes "sessionInv g"
  shows "sessionInv (finishRound g)"
proof (cases "getCurrentTeam g")
  case None
  then show ?thesis using assms by (simp add: finishRound_def Let_def)
next
  case (Some j)
  have "0 \<le> rpoints (theRound g) * multiplier (roundCount g)"
    using assms by (intro award_nonneg) (simp add: sessionInv_def)
  from sessionInv_addPoints[OF assms this getCurrentTeam_lt[OF Some]] Some
  show ?thesis by (simp add: finishRound_def Let_def)
qed

lemma sessionInv_setBoardAnswer:
  assumes "sessionInv g" "0 \<le> apoints a"
  shows "sessionInv (setBoardAnswer a g)"
proof -
  let ?g1 = "g\<lparr>theRound := (theRound g)\<lparr>revealed := finsert (lp a) (revealed (theRound g)),
                 right := right (theRound g) + 1,
                 rpoints := rpoints (theRound g) + apoints a\<rparr>\<rparr>"
  have "sessionInv ?g1" using assms by (simp add: sessionInv_def wellFormed_def)
  then show ?thesis using assms(1) sessionInv_finishRound[of ?g1]
    by (simp add: setBoardAnswer_def Let_def)
qed

lemma sessionInv_status [simp]:
  "sessionInv (g\<lparr>theRound := (theRound g)\<lparr>status := s\<rparr>\<rparr>) = sessionInv g"
  by (simp add: sessionInv_def wellFormed_def)

lemma sessionInv_setBoardError:
  assumes "sessionInv g" "i < length (teams g)"
  shows "sessionInv (setBoardError i g)"
proof -
  let ?g1 = "g\<lparr>teams := (teams g)[i := addError (teams g ! i)]\<rparr>"
  have g1: "sessionInv ?g1" by (rule sessionInv_addError[OF assms])
  have aw: "0 \<le> rpoints (theRound ?g1) * multiplier (roundCount ?g1)"
    using assms(1) by (intro award_nonneg) (simp add: sessionInv_def)
  have st: "sessionInv ((switchCurrentTeam ?g1)\<lparr>theRound := (theRound ?g1)\<lparr>status := STOLEN\<rparr>\<rparr>)"
    using g1 sessionInv_status[where g = "switchCurrentTeam ?g1" and s = STOLEN] by simp
  have pt: "sessionInv ((switchCurrentTeam ?g1)
              \<lparr>teams := (teams ?g1)[j := addPoints (rpoints (theRound ?g1)
                                           * multiplier (roundCount ?g1)) (teams ?g1 ! j)]\<rparr>)"
    if "getCurrentTeam (switchCurrentTeam ?g1) = Some j" for j
    using sessionInv_addPoints[of "switchCurrentTeam ?g1", OF _ aw] g1 getCurrentTeam_lt[OF that]
    by simp
  show ?thesis
    using g1 st pt
    by (simp add: setBoardError_def Let_def split: option.splits)
qed


lemma find_Some_in: "find P xs = Some x \<Longrightarrow> x \<in> set xs"
  by (induction xs) (auto split: if_splits)

lemma sessionInv_revealAnswerOnly:
  assumes "sessionInv g'" "theRound g' = theRound g"
  shows "sessionInv (g'\<lparr>theRound := revealAnswerOnly a (theRound g)\<rparr>)"
  using assms by (simp add: sessionInv_def wellFormed_def revealAnswerOnly_def)

lemma sessionInv_answer_nonneg:
  assumes "sessionInv g" "a \<in> set (answers (question (theRound g)))"
  shows "0 \<le> apoints a"
  using assms by (simp add: sessionInv_def nonnegQuestion_def)

lemma sessionInv_handlePlayerAnswer:
  assumes "sessionInv g"
  shows "sessionInv (handlePlayerAnswer s g)"
proof -
  note p = sessionInv_push[OF assms]
  have a: "0 \<le> apoints a" if "resolvePlayerAnswer s (pushUndoSnapshot g) = Some a" for a
    using that sessionInv_answer_nonneg[OF assms, of a]
    by (auto simp: resolvePlayerAnswer_def dest: find_Some_in)
  have i: "i < length (teams (pushUndoSnapshot g))" if "getCurrentTeam g = Some i" for i
    using getCurrentTeam_lt[OF that] by simp
  show ?thesis
    using p a i
    by (auto simp: handlePlayerAnswer_def Let_def sessionInv_setBoardAnswer
        sessionInv_setBoardError sessionInv_revealAnswerOnly split: option.splits)
qed

lemma sessionInv_revealAnswerByNumber:
  assumes "sessionInv g"
  shows "sessionInv (snd (revealAnswerByNumber n g))"
proof -
  note p = sessionInv_push[OF assms]
  have a: "0 \<le> apoints a"
    if "find (\<lambda>a. lp a = n) (answers (question (theRound g))) = Some a" for a
    using sessionInv_answer_nonneg[OF assms find_Some_in[OF that]] .
  show ?thesis
    using p a assms
    by (auto simp: revealAnswerByNumber_def Let_def sessionInv_setBoardAnswer
        sessionInv_revealAnswerOnly split: option.splits)
qed

lemma sessionInv_addErrorForSelectedTeam:
  assumes "sessionInv g"
  shows "sessionInv (snd (addErrorForSelectedTeam g))"
proof (cases "getCurrentTeam g")
  case None
  then show ?thesis using assms by (simp add: addErrorForSelectedTeam_def)
next
  case (Some i)
  have "i < length (teams (pushUndoSnapshot g))" using getCurrentTeam_lt[OF Some] by simp
  from sessionInv_setBoardError[OF sessionInv_push[OF assms] this] Some
  show ?thesis by (simp add: addErrorForSelectedTeam_def)
qed

lemma sessionInv_setCurrentTeam:
  assumes "sessionInv g"
  shows "sessionInv (setCurrentTeam n skip g)"
  using assms sessionInv_push[OF assms] by (simp add: setCurrentTeam_def)

lemma sessionInv_startNewRound:
  assumes "sessionInv g" "startNewRound coin g = Inr g'"
  shows "sessionInv g'"
proof -
  let ?st = "questionsStore g"
  let ?n = "int (length (questions ?st))"
  from assms(2) obtain q where
    q: "getQuestion ?st = (Some q, ?st\<lparr>currentQuestionIndex := jsrem (currentQuestionIndex ?st + 1) ?n\<rparr>)"
    and ne: "questions ?st \<noteq> []"
    by (auto simp: startNewRound_def Let_def getQuestion_def getNextQuestion_def
        resetTeamsErrors_def split: prod.splits option.splits if_splits)
  have c: "0 \<le> currentQuestionIndex ?st" "currentQuestionIndex ?st < ?n"
    using assms(1) ne by (simp_all add: sessionInv_def wellFormed_def)
  then have qi: "q = questions ?st ! nat (currentQuestionIndex ?st)"
    using q ne by (simp add: getQuestion_def getNextQuestion_def Let_def)
  then have qn: "nonnegQuestion q" using assms(1) c by (simp add: sessionInv_def)
  have n0: "0 < ?n" using ne by simp
  have j: "0 \<le> jsrem (currentQuestionIndex ?st + 1) ?n"
          "jsrem (currentQuestionIndex ?st + 1) ?n < ?n"
    using c n0 by (simp_all add: jsrem_def)
  have g': "g' = (pushUndoSnapshot g)
                   \<lparr>pendingNextRound := False,
                    teams := map resetErrors (teams g),
                    roundCount := roundCount g + 1,
                    questionsStore := ?st\<lparr>currentQuestionIndex := jsrem (currentQuestionIndex ?st + 1) ?n\<rparr>,
                    theRound := newRound q,
                    currentTeam := tname (map resetErrors (teams g) ! (if coin then 1 else 0))\<rparr>"
    using assms(2) q
    by (auto simp: startNewRound_def Let_def resetTeamsErrors_def setRandomTeam_def
        setCurrentTeam_def split: if_splits)
  show ?thesis
    unfolding g' using assms(1) qn j ne
    by (simp add: sessionInv_def wellFormed_def takeSnapshot_def newRound_def resetErrors_def
        comp_def)
qed

lemma setCurrentQuestionIndex_range:
  "questions (setCurrentQuestionIndex x st) = questions st"
  "questions st = [] \<Longrightarrow> currentQuestionIndex (setCurrentQuestionIndex x st) = 0"
  "questions st \<noteq> [] \<Longrightarrow> 0 \<le> currentQuestionIndex (setCurrentQuestionIndex x st)"
  "questions st \<noteq> [] \<Longrightarrow>
     currentQuestionIndex (setCurrentQuestionIndex x st) < int (length (questions st))"
proof -
  show "questions (setCurrentQuestionIndex x st) = questions st"
    by (simp add: setCurrentQuestionIndex_def Let_def)
  show "questions st = [] \<Longrightarrow> currentQuestionIndex (setCurrentQuestionIndex x st) = 0"
    by (simp add: setCurrentQuestionIndex_def)
  assume ne: "questions st \<noteq> []"
  then have n0: "0 < int (length (questions st))" by simp
  show "0 \<le> currentQuestionIndex (setCurrentQuestionIndex x st)"
    using ne jsrem_normalised(1)[OF n0, of x] by (simp add: setCurrentQuestionIndex_def Let_def)
  show "currentQuestionIndex (setCurrentQuestionIndex x st) < int (length (questions st))"
    using ne jsrem_normalised(2)[OF n0, of x] by (simp add: setCurrentQuestionIndex_def Let_def)
qed

lemma restoreTeam_nonneg:
  assumes "\<forall>t \<in> set ts. 0 \<le> tpoints t \<and> 0 \<le> terrors t"
  shows "\<forall>t \<in> set (restoreTeam x ts). 0 \<le> tpoints t \<and> 0 \<le> terrors t"
proof (cases "findIndex (\<lambda>t. tname t = fst x) ts")
  case None
  then show ?thesis using assms by (simp add: restoreTeam_def)
next
  case (Some i)
  have "\<forall>t \<in> set (ts[i := setErrors (snd (snd x)) (setPoints (fst (snd x)) (ts ! i))]).
          0 \<le> tpoints t \<and> 0 \<le> terrors t"
    using assms by (rule set_update_nonneg) (simp add: setErrors_def setPoints_def)
  then show ?thesis using Some by (simp add: restoreTeam_def)
qed

lemma fold_restoreTeam_nonneg:
  "\<forall>t \<in> set ts. 0 \<le> tpoints t \<and> 0 \<le> terrors t \<Longrightarrow>
   \<forall>t \<in> set (fold restoreTeam xs ts). 0 \<le> tpoints t \<and> 0 \<le> terrors t"
proof (induction xs arbitrary: ts)
  case Nil
  then show ?case by simp
next
  case (Cons x xs)
  from Cons.IH[OF restoreTeam_nonneg[OF Cons.prems]] show ?case by simp
qed

lemma sessionInv_undo:
  assumes "sessionInv g"
  shows "sessionInv (snd (undo g))"
proof (cases "undoStack g")
  case Nil
  then show ?thesis using assms by (simp add: undo_def)
next
  case (Cons s rest)
  let ?st = "setCurrentQuestionIndex (s_questionsStoreIndex s) (questionsStore g)"
  let ?ts = "fold restoreTeam (s_teamState s) (teams g)"
  let ?r = "(newRound (s_roundQuestion s))
              \<lparr>status := s_roundStatus s, rpoints := s_roundPoints s,
               right := s_roundRight s, revealed := s_revealed s\<rparr>"
  let ?u = "snd (undo g)"
  have u: "teams ?u = ?ts" "questionsStore ?u = ?st" "theRound ?u = ?r" "undoStack ?u = rest"
    using Cons by (simp_all add: undo_def setCurrentTeam_def)
  have w: "wellFormed g" using assms by (simp add: sessionInv_def)
  have ts: "\<forall>t \<in> set ?ts. 0 \<le> tpoints t \<and> 0 \<le> terrors t"
    using w by (intro fold_restoreTeam_nonneg) (simp add: wellFormed_def)
  have d: "distinct (map tname ?ts)" using w by (simp add: wellFormed_def)
  have c: "if questions ?st = [] then currentQuestionIndex ?st = 0
           else 0 \<le> currentQuestionIndex ?st \<and>
                currentQuestionIndex ?st < int (length (questions ?st))"
  proof (cases "questions (questionsStore g) = []")
    case True
    then show ?thesis by (simp add: setCurrentQuestionIndex_range(1,2))
  next
    case False
    then show ?thesis
      using setCurrentQuestionIndex_range(3,4)[OF False, of "s_questionsStoreIndex s"]
      by (simp add: setCurrentQuestionIndex_range(1))
  qed
  have wu: "wellFormed ?u" unfolding wellFormed_def u using d ts c by blast
  have s: "0 \<le> s_roundPoints s" "nonnegQuestion (s_roundQuestion s)"
    "\<forall>s' \<in> set rest. 0 \<le> s_roundPoints s' \<and> nonnegQuestion (s_roundQuestion s')"
    using assms Cons by (simp_all add: sessionInv_def)
  have q: "\<forall>q \<in> set (questions ?st). nonnegQuestion q"
    using assms by (simp add: setCurrentQuestionIndex_range(1) sessionInv_def)
  have r: "0 \<le> rpoints ?r" "nonnegQuestion (question ?r)"
    using s(1,2) by (simp_all add: newRound_def)
  show ?thesis unfolding sessionInv_def u using wu r q s(3) by blast
qed

lemma sessionInv_forward:
  assumes "sessionInv g" "forward a g = Some g'"
  shows "sessionInv g'"
proof (cases a)
  case (HandlePlayerAnswer s)
  then show ?thesis using assms sessionInv_handlePlayerAnswer[of g s] by auto
next
  case (RevealAnswerByNumber n)
  then show ?thesis using assms sessionInv_revealAnswerByNumber[of g n]
    by (auto split: prod.splits bool.splits)
next
  case AddErrorForSelectedTeam
  then show ?thesis using assms sessionInv_addErrorForSelectedTeam[of g]
    by (auto split: prod.splits bool.splits)
next
  case (SetCurrentTeam n)
  then show ?thesis using assms sessionInv_setCurrentTeam[of g n False] by auto
next
  case (AdvanceToNextRound coin)
  then show ?thesis using assms sessionInv_startNewRound[of g coin g']
    by (auto simp: advanceToNextRound_def split: sum.splits prod.splits bool.splits if_splits)
qed

text \<open>
  The hypothesis of the undo theorems holds all along a session whose dataset has no
  negative point value: it is kept by every forward action and by \<open>undo\<close>.
\<close>

lemma session_stays_wellFormed:
  "sessionInv g \<Longrightarrow> wellFormed g"
  "sessionInv g \<Longrightarrow> forward a g = Some g' \<Longrightarrow> sessionInv g'"
  "sessionInv g \<Longrightarrow> sessionInv (snd (undo g))"
  by (simp add: sessionInv_def, rule sessionInv_forward, assumption+, rule sessionInv_undo)

lemma sessionInv_exGame: "sessionInv exGame"
  by (simp add: sessionInv_def wellFormed_def nonnegQuestion_def ex_defs)


lemma sessionInv_newGame:
  assumes "distinct (map tname ts)" "\<forall>t \<in> set ts. 0 \<le> tpoints t \<and> 0 \<le> terrors t"
    and "currentQuestionIndex st = 0" "\<forall>q \<in> set (questions st). nonnegQuestion q"
    and "newGame ts st coin = Inr g"
  shows "sessionInv g"
proof -
  let ?n = "int (length (questions st))"
  from assms(5) have ne: "questions st \<noteq> []"
    by (auto simp: newGame_def getQuestion_def getNextQuestion_def split: if_splits)
  then have n0: "0 < ?n" by simp
  have j: "0 \<le> jsrem 1 ?n" "jsrem 1 ?n < ?n" using n0 by (simp_all add: jsrem_def)
  have g: "g = \<lparr>teams = ts, questionsStore = st\<lparr>currentQuestionIndex := jsrem 1 ?n\<rparr>,
                roundCount = 1, pendingNextRound = False, undoStack = [],
                theRound = newRound (questions st ! 0),
                currentTeam = tname (ts ! (if coin then 1 else 0))\<rparr>"
    using assms(3,5) ne
    by (auto simp: newGame_def getQuestion_def getNextQuestion_def Let_def setRandomTeam_def
        setCurrentTeam_def split: if_splits)
  have "nonnegQuestion (questions st ! 0)" using assms(4) ne by simp
  then show ?thesis
    unfolding g using assms(1,2,4) j ne
    by (simp add: sessionInv_def wellFormed_def newRound_def)
qed

end
